theory Spec2Isabelle
  imports Main "HOL-Library.Sublist" "HOL-Library.Monad_Syntax" "HOL-Library.AList"
begin

section \<open>Python strings\<close>

text \<open>
  The program is \<^verbatim>\<open>api/index.py\<close>: it loads two code tables into dictionaries
  when the module is imported and annotates the lines of a submitted text with the
  names of the item IDs each line starts with.

  A Python \<^verbatim>\<open>str\<close> is a sequence of Unicode code points, so a string is a list of
  natural numbers here. The table files and the messages of the program are Chinese;
  ASCII text is written with \<open>ascii\<close>, everything else by its code points.
\<close>

type_synonym ustr = "nat list"

definition ascii :: "string \<Rightarrow> ustr" where
  "ascii s = map of_char s"

text \<open>
  \<^verbatim>\<open>str.isspace\<close>, which is also what \<^verbatim>\<open>str.strip()\<close> removes and what \<^verbatim>\<open>\s\<close>
  matches in a \<^verbatim>\<open>str\<close> pattern of \<^verbatim>\<open>re\<close>: the ASCII controls 9 to 13 and 28 to 31,
  the blank, and the Unicode white space beyond ASCII.
\<close>

definition isspace :: "nat \<Rightarrow> bool" where
  "isspace c =
     ((0x09 \<le> c \<and> c \<le> 0x0D) \<or> (0x1C \<le> c \<and> c \<le> 0x20) \<or> c = 0x85 \<or> c = 0xA0
      \<or> c = 0x1680 \<or> (0x2000 \<le> c \<and> c \<le> 0x200A) \<or> c = 0x2028 \<or> c = 0x2029
      \<or> c = 0x202F \<or> c = 0x205F \<or> c = 0x3000)"

text \<open>
  \<^verbatim>\<open>\d\<close> in a \<^verbatim>\<open>str\<close> pattern is \<^verbatim>\<open>str.isdecimal\<close>: every character of the Unicode
  category Nd, not only \<^verbatim>\<open>0-9\<close>; \<^verbatim>\<open>int()\<close> accepts the same characters and reads
  each by its decimal value. The category is a union of blocks of ten consecutive code
  points, the digits zero to nine of one script. \<open>digit_zeros\<close> lists the zero of each
  block (Unicode 14.0, the table of CPython 3.11).
\<close>

definition digit_zeros :: "nat list" where
  "digit_zeros =
     [0x30, 0x660, 0x6F0, 0x7C0, 0x966, 0x9E6, 0xA66, 0xAE6, 0xB66, 0xBE6, 0xC66, 0xCE6,
      0xD66, 0xDE6, 0xE50, 0xED0, 0xF20, 0x1040, 0x1090, 0x17E0, 0x1810, 0x1946, 0x19D0,
      0x1A80, 0x1A90, 0x1B50, 0x1BB0, 0x1C40, 0x1C50, 0xA620, 0xA8D0, 0xA900, 0xA9D0,
      0xA9F0, 0xAA50, 0xABF0, 0xFF10, 0x104A0, 0x10D30, 0x11066, 0x110F0, 0x11136,
      0x111D0, 0x112F0, 0x11450, 0x114D0, 0x11650, 0x116C0, 0x11730, 0x118E0, 0x11950,
      0x11C50, 0x11D50, 0x11DA0, 0x16A60, 0x16AC0, 0x16B50, 0x1D7CE, 0x1D7D8, 0x1D7E2,
      0x1D7EC, 0x1D7F6, 0x1E140, 0x1E2F0, 0x1E950, 0x1FBF0]"

definition decimal_value :: "nat \<Rightarrow> nat option" where
  "decimal_value c =
     (case find (\<lambda>z. z \<le> c \<and> c < z + 10) digit_zeros of
        None \<Rightarrow> None
      | Some z \<Rightarrow> Some (c - z))"

definition isdecimal :: "nat \<Rightarrow> bool" where
  "isdecimal c = (decimal_value c \<noteq> None)"

text \<open>\<^verbatim>\<open>s.strip()\<close> with no argument removes white space at both ends.\<close>

definition lstrip :: "ustr \<Rightarrow> ustr" where
  "lstrip s = dropWhile isspace s"

definition rstrip :: "ustr \<Rightarrow> ustr" where
  "rstrip s = rev (dropWhile isspace (rev s))"

definition strip :: "ustr \<Rightarrow> ustr" where
  "strip s = lstrip (rstrip s)"

text \<open>
  \<^verbatim>\<open>s.split(sep)\<close>: the pieces between the occurrences of \<open>sep\<close>, found from the left
  and not overlapping; at least one piece. Both separators of the program are
  non-empty literals (Python raises \<^verbatim>\<open>ValueError\<close> on an empty one).
\<close>

fun split_str :: "ustr \<Rightarrow> ustr \<Rightarrow> ustr list" where
  "split_str sep [] = [[]]"
| "split_str sep (c # cs) =
     (if sep \<noteq> [] \<and> prefix sep (c # cs)
      then [] # split_str sep (drop (length sep - 1) cs)
      else (case split_str sep cs of
              [] \<Rightarrow> [[c]]
            | w # ws \<Rightarrow> (c # w) # ws))"

text \<open>\<^verbatim>\<open>sep.join(xs)\<close>.\<close>

fun join :: "ustr \<Rightarrow> ustr list \<Rightarrow> ustr" where
  "join sep [] = []"
| "join sep [x] = x"
| "join sep (x # y # ys) = x @ sep @ join sep (y # ys)"

text \<open>\<^verbatim>\<open>k in s\<close> for two strings: \<open>k\<close> occurs in \<open>s\<close> as a contiguous piece.\<close>

fun contains :: "ustr \<Rightarrow> ustr \<Rightarrow> bool" where
  "contains k [] = (k = [])"
| "contains k (c # cs) = (prefix k (c # cs) \<or> contains k cs)"

text \<open>
  \<^verbatim>\<open>str(n)\<close> and the \<^verbatim>\<open>{n}\<close> of an f-string for an \<^verbatim>\<open>int\<close>: the decimal digits,
  after a minus sign for a negative number. The program formats only numbers that
  \<^verbatim>\<open>int\<close> has read from a string, which have no more digits than \<^verbatim>\<open>int\<close> accepts
  (\<open>int_max_str_digits\<close> below), so the refusal of \<^verbatim>\<open>str\<close> to format a longer number
  is not a branch of it.
\<close>

fun digits_of :: "nat \<Rightarrow> ustr" where
  "digits_of n = (if n < 10 then [0x30 + n] else digits_of (n div 10) @ [0x30 + n mod 10])"

declare digits_of.simps [simp del]

definition py_str :: "int \<Rightarrow> ustr" where
  "py_str i = (if i < 0 then 0x2D # digits_of (nat (- i)) else digits_of (nat i))"

text \<open>
  \<^verbatim>\<open>int(s)\<close> for a string, base ten: white space at both ends is skipped (the
  white space of \<open>isspace\<close> but for the controls 28 to 31, which \<^verbatim>\<open>int\<close> rejects), then
  come an optional sign and decimal digits of any script, where a single underscore may
  stand between two digits. Anything else raises \<^verbatim>\<open>ValueError\<close>, which is \<open>None\<close>
  here. \<open>int_value\<close> is this reading of a string of any length, Python's integers
  being unbounded.

  \<^verbatim>\<open>int\<close> itself, \<open>py_int\<close>, first counts the digits of the string (the underscores
  and the sign do not count, zeros at the front do) and raises \<^verbatim>\<open>ValueError\<close> when
  there are more than \<^verbatim>\<open>sys.get_int_max_str_digits()\<close> of them: 4300 in an interpreter
  started as the program starts it, with no option and no call that changes the limit.
\<close>

definition int_space :: "nat \<Rightarrow> bool" where
  "int_space c = (isspace c \<and> (c < 0x1C \<or> 0x1F < c))"

fun int_digits :: "nat \<Rightarrow> ustr \<Rightarrow> nat option" where
  "int_digits acc [] = Some acc"
| "int_digits acc [c] =
     (case decimal_value c of None \<Rightarrow> None | Some v \<Rightarrow> Some (10 * acc + v))"
| "int_digits acc (c # d # cs) =
     (case decimal_value c of
        Some v \<Rightarrow> int_digits (10 * acc + v) (d # cs)
      | None \<Rightarrow>
          if c = 0x5F
          then (case decimal_value d of
                  None \<Rightarrow> None
                | Some v \<Rightarrow> int_digits (10 * acc + v) cs)
          else None)"

definition int_unsigned :: "ustr \<Rightarrow> nat option" where
  "int_unsigned s =
     (case s of
        [] \<Rightarrow> None
      | c # cs \<Rightarrow> (case decimal_value c of None \<Rightarrow> None | Some v \<Rightarrow> int_digits v cs))"

definition int_value :: "ustr \<Rightarrow> int option" where
  "int_value s =
     (case rev (dropWhile int_space (rev (dropWhile int_space s))) of
        [] \<Rightarrow> None
      | c # cs \<Rightarrow>
          if c = 0x2D then map_option (\<lambda>n. - int n) (int_unsigned cs)
          else if c = 0x2B then map_option int (int_unsigned cs)
          else map_option int (int_unsigned (c # cs)))"

definition int_max_str_digits :: nat where
  "int_max_str_digits = 4300"

definition py_int :: "ustr \<Rightarrow> int option" where
  "py_int s =
     (if int_max_str_digits < length (filter isdecimal s) then None else int_value s)"


section \<open>Regular expressions of the program\<close>

text \<open>
  The three patterns of the program are built from literals and from greedy repetitions
  of a character class. In each of them a repetition is followed by something that no
  character of its class can start (a digit run by a brace, a comma, white space or the
  end of the pattern; the name by \<^verbatim>\<open>]\<close>), so the backtracking of \<^verbatim>\<open>re\<close> can find no
  match that the greedy choice misses, and matching is reading from the left.
  \<open>literal\<close> reads a fixed text, \<open>many1 p\<close> is \<^verbatim>\<open>[p]+\<close>; both return what is left.
\<close>

definition literal :: "ustr \<Rightarrow> ustr \<Rightarrow> ustr option" where
  "literal l s = (if prefix l s then Some (drop (length l) s) else None)"

definition many1 :: "(nat \<Rightarrow> bool) \<Rightarrow> ustr \<Rightarrow> (ustr \<times> ustr) option" where
  "many1 p s = (if takeWhile p s = [] then None else Some (takeWhile p s, dropWhile p s))"

text \<open>The class \<^verbatim>\<open>[0-9a-fA-F]\<close> is written out in the pattern, so it is ASCII only.\<close>

definition ishex :: "nat \<Rightarrow> bool" where
  "ishex c = ((0x30 \<le> c \<and> c \<le> 0x39) \<or> (0x61 \<le> c \<and> c \<le> 0x66) \<or> (0x41 \<le> c \<and> c \<le> 0x46))"

definition not_rbracket :: "nat \<Rightarrow> bool" where
  "not_rbracket c = (c \<noteq> 0x5D)"

text \<open>
  \<^verbatim>\<open>subway_pattern = re.compile(r"\{(\d+)\}--\{\d+\}--\[([^\]]+)\]--\[(0x[0-9a-fA-F]+)\]")\<close>
  and \<^verbatim>\<open>subway_pattern.match(line)\<close>, which anchors the pattern at the start of the
  line only. The result is the three groups.
\<close>

definition subway_pattern_match :: "ustr \<Rightarrow> (ustr \<times> ustr \<times> ustr) option" where
  "subway_pattern_match s =
     do {
       r1 \<leftarrow> literal (ascii ''{'') s;
       (g1, r2) \<leftarrow> many1 isdecimal r1;
       r3 \<leftarrow> literal (ascii ''}--{'') r2;
       (d, r4) \<leftarrow> many1 isdecimal r3;
       r5 \<leftarrow> literal (ascii ''}--['') r4;
       (g2, r6) \<leftarrow> many1 not_rbracket r5;
       r7 \<leftarrow> literal (ascii '']--[0x'') r6;
       (h, r8) \<leftarrow> many1 ishex r7;
       r9 \<leftarrow> literal (ascii '']'') r8;
       Some (g1, g2, ascii ''0x'' @ h)
     }"

text \<open>
  \<^verbatim>\<open>re.match(r"^\s*(\d+(?:\s*,\s*\d+)*)", stripped_line)\<close>: group 1, or \<open>None\<close> when the
  line does not start with a digit (after white space). \<open>more_ids\<close> is the text matched
  by the repeated group \<^verbatim>\<open>(?:\s*,\s*\d+)*\<close>.
\<close>

lemma literal_shorter: "literal l s = Some r \<Longrightarrow> length r \<le> length s"
  by (auto simp: literal_def split: if_splits)

lemma literal_comma_shorter: "literal (ascii '','') s = Some r \<Longrightarrow> length r < length s"
  by (cases s) (auto simp: literal_def ascii_def split: if_splits)

lemma many1_shorter: "many1 p s = Some (d, r) \<Longrightarrow> length r \<le> length s"
  by (auto simp: many1_def length_dropWhile_le split: if_splits)

function more_ids :: "ustr \<Rightarrow> ustr" where
  "more_ids s =
     (case literal (ascii '','') (dropWhile isspace s) of
        None \<Rightarrow> []
      | Some r \<Rightarrow>
          (case many1 isdecimal (dropWhile isspace r) of
             None \<Rightarrow> []
           | Some (d, r') \<Rightarrow>
               takeWhile isspace s @ ascii '','' @ takeWhile isspace r @ d @ more_ids r'))"
  by pat_completeness auto
termination
proof (relation "measure length", goal_cases)
  case 1
  show ?case by simp
next
  case (2 s r x d r')
  have "length r' \<le> length (dropWhile isspace r)"
    using 2(2,3) many1_shorter by auto
  also have "\<dots> \<le> length r"
    by (rule length_dropWhile_le)
  also have "\<dots> < length (dropWhile isspace s)"
    using 2(1) by (rule literal_comma_shorter)
  also have "\<dots> \<le> length s"
    by (rule length_dropWhile_le)
  finally show ?case by simp
qed

declare more_ids.simps [simp del]

definition id_match :: "ustr \<Rightarrow> ustr option" where
  "id_match s =
     (case many1 isdecimal (dropWhile isspace s) of
        None \<Rightarrow> None
      | Some (d, r) \<Rightarrow> Some (d @ more_ids r))"

text \<open>\<^verbatim>\<open>re.findall(r"\d+", s)\<close>: the maximal runs of digits of \<open>s\<close>, from the left.\<close>

function findall_digits :: "ustr \<Rightarrow> ustr list" where
  "findall_digits s =
     (case dropWhile (\<lambda>c. \<not> isdecimal c) s of
        [] \<Rightarrow> []
      | c # r \<Rightarrow> (c # takeWhile isdecimal r) # findall_digits (dropWhile isdecimal r))"
  by pat_completeness auto
termination
proof (relation "measure length", goal_cases)
  case 1
  show ?case by simp
next
  case (2 s c r)
  have "length (dropWhile isdecimal r) \<le> length r"
    by (rule length_dropWhile_le)
  also have "\<dots> < length (dropWhile (\<lambda>c. \<not> isdecimal c) s)"
    using 2 by simp
  also have "\<dots> \<le> length s"
    by (rule length_dropWhile_le)
  finally show ?case by simp
qed

declare findall_digits.simps [simp del]


section \<open>The dictionaries and the log\<close>

text \<open>
  A \<^verbatim>\<open>dict\<close> is the list of its items in the order of their insertion, each key once:
  \<open>map_of d k\<close> is \<^verbatim>\<open>d.get(k)\<close>, \<open>AList.update k v d\<close> is \<^verbatim>\<open>d[k] = v\<close> (a new value
  takes the place of the old one, a new key goes to the end), \<open>d = []\<close> is \<^verbatim>\<open>not d\<close>.
  \<open>dict_update d t\<close> is \<^verbatim>\<open>d.update(t)\<close>.
\<close>

type_synonym ('k, 'v) dict = "('k \<times> 'v) list"

definition dict_update :: "('k, 'v) dict \<Rightarrow> ('k, 'v) dict \<Rightarrow> ('k, 'v) dict" where
  "dict_update d t = fold (\<lambda>kv. AList.update (fst kv) (snd kv)) t d"

text \<open>
  The values of \<^verbatim>\<open>item_dict\<close> are the dictionaries
  \<^verbatim>\<open>{"name": name, "type": type_hint, "parent": parent_id}\<close>, those of
  \<^verbatim>\<open>subway_item_dict\<close> are \<^verbatim>\<open>{"name": name, "hex_code": hex_code}\<close>.
\<close>

record item_info =
  name :: ustr
  type_hint :: ustr
  parent :: "int option"

record subway_info =
  subway_name :: ustr
  hex_code :: ustr

text \<open>The four module-level dictionaries.\<close>

record globals =
  item_dict :: "(int, item_info) dict"
  main_weapon_dict :: "(int, ustr) dict"
  sub_to_main_dict :: "(int, int) dict"
  subway_item_dict :: "(int, subway_info) dict"

text \<open>The three dictionaries that \<^verbatim>\<open>parse_generic_code_table\<close> builds and returns.\<close>

record generic_tables =
  parsed_items :: "(int, item_info) dict"
  main_weapons :: "(int, ustr) dict"
  sub_to_main :: "(int, int) dict"

text \<open>
  The exceptions that reading a file can raise, as far as the handlers of the program
  tell them apart.
\<close>

datatype exn = FileNotFoundError | UnicodeDecodeError | OtherError

text \<open>
  What the loader writes to the log at the levels WARNING and ERROR, one constructor
  for each call of the logger, with the line or the exception the message shows. The
  messages at the levels INFO and DEBUG, and the log of the request handler, change
  nothing else and are left out.
\<close>

datatype log_record =
    Generic_bad_format ustr
  | Generic_bad_id ustr
  | Generic_file_not_found
  | Generic_parse_exception exn
  | Subway_bad_id ustr
  | Subway_no_match ustr
  | Subway_file_not_found
  | Subway_parse_exception exn
  | Generic_gbk_fallback
  | Generic_load_error exn
  | Subway_gbk_fallback
  | Subway_load_error exn

datatype level = WARNING | ERROR

fun level_of :: "log_record \<Rightarrow> level" where
  "level_of (Generic_bad_format l) = WARNING"
| "level_of (Generic_bad_id l) = WARNING"
| "level_of Generic_file_not_found = ERROR"
| "level_of (Generic_parse_exception e) = ERROR"
| "level_of (Subway_bad_id l) = WARNING"
| "level_of (Subway_no_match l) = WARNING"
| "level_of Subway_file_not_found = ERROR"
| "level_of (Subway_parse_exception e) = ERROR"
| "level_of Generic_gbk_fallback = WARNING"
| "level_of (Generic_load_error e) = ERROR"
| "level_of Subway_gbk_fallback = WARNING"
| "level_of (Subway_load_error e) = ERROR"

section \<open>Reading a table file\<close>

text \<open>
  The two files and the two encodings the loader names. What
  \<^verbatim>\<open>with open(file_path, 'r', encoding=encoding) as file: for line in file\<close> does
  depends on the files of the server, which are a parameter: for a path and an encoding,
  the decoded text that reached the loop as lines, and the exception that ended the
  reading, if one did (\<^verbatim>\<open>FileNotFoundError\<close> from \<^verbatim>\<open>open\<close>, with no text;
  \<^verbatim>\<open>UnicodeDecodeError\<close> from the iteration, after the lines decoded before it).
\<close>

datatype path = code_table_path | subway_code_table_path

datatype encoding = UTF8 | GBK

type_synonym filesystem = "path \<Rightarrow> encoding \<Rightarrow> ustr \<times> exn option"

text \<open>
  A file opened in text mode translates \<^verbatim>\<open>\r\n\<close> and a lone \<^verbatim>\<open>\r\<close> to \<^verbatim>\<open>\n\<close>; the
  flag says that the character before was \<^verbatim>\<open>\r\<close>. Iterating the file yields its
  lines, each with its \<^verbatim>\<open>\n\<close>, and a last line without one if the text does not end
  in \<^verbatim>\<open>\n\<close>.
\<close>

fun universal_newlines :: "bool \<Rightarrow> ustr \<Rightarrow> ustr" where
  "universal_newlines after_cr [] = []"
| "universal_newlines after_cr (c # cs) =
     (if c = 0x0D then 0x0A # universal_newlines True cs
      else if c = 0x0A \<and> after_cr then universal_newlines False cs
      else c # universal_newlines False cs)"

fun iter_lines :: "ustr \<Rightarrow> ustr \<Rightarrow> ustr list" where
  "iter_lines cur [] = (if cur = [] then [] else [cur])"
| "iter_lines cur (c # cs) =
     (if c = 0x0A then (cur @ [c]) # iter_lines [] cs else iter_lines (cur @ [c]) cs)"

definition file_lines :: "ustr \<Rightarrow> ustr list" where
  "file_lines text = iter_lines [] (universal_newlines False text)"

section \<open>parse\_generic\_code\_table\<close>

text \<open>
  The words the parser looks for in a name, and the five values of \<^verbatim>\<open>type_hint\<close>:
  \<open>zhujian\<close> is the main part (a weapon), \<open>danxia\<close> a magazine, \<open>qiangkou\<close> a muzzle,
  \<open>woba\<close> a grip, \<open>jimiao\<close> an iron sight; \<open>miaoju\<close> (sight) and \<open>miaozhunjing\<close> (scope)
  are two more words for a sight.
\<close>

definition zhujian :: ustr where "zhujian = [0x4E3B, 0x4EF6]"
definition danxia :: ustr where "danxia = [0x5F39, 0x5323]"
definition qiangkou :: ustr where "qiangkou = [0x67AA, 0x53E3]"
definition woba :: ustr where "woba = [0x63E1, 0x628A]"
definition miaoju :: ustr where "miaoju = [0x7784, 0x5177]"
definition miaozhunjing :: ustr where "miaozhunjing = [0x7784, 0x51C6, 0x955C]"
definition jimiao :: ustr where "jimiao = [0x673A, 0x7784]"

text \<open>
  The \<^verbatim>\<open>if any(k in name for k in [...])\<close> \<^verbatim>\<open>elif\<close> chain that sets \<^verbatim>\<open>type_hint\<close>.
\<close>

definition classify :: "ustr \<Rightarrow> ustr" where
  "classify nm =
     (if list_ex (\<lambda>k. contains k nm) [danxia] then danxia
      else if list_ex (\<lambda>k. contains k nm) [qiangkou] then qiangkou
      else if list_ex (\<lambda>k. contains k nm) [woba] then woba
      else if list_ex (\<lambda>k. contains k nm) [miaoju, miaozhunjing, jimiao] then jimiao
      else zhujian)"

definition no_tables :: generic_tables where
  "no_tables = \<lparr>parsed_items = [], main_weapons = [], sub_to_main = []\<rparr>"

text \<open>
  The three assignments at the end of the inner \<^verbatim>\<open>try\<close>, for a line whose two IDs
  were read.
\<close>

definition store_item :: "int \<Rightarrow> int \<Rightarrow> ustr \<Rightarrow> generic_tables \<Rightarrow> generic_tables" where
  "store_item id1 id2 nm t =
     (let th = classify nm;
          parent_id = (if th \<noteq> zhujian then Some id1 else None);
          t1 = t\<lparr>parsed_items :=
                 AList.update id2 \<lparr>name = nm, type_hint = th, parent = parent_id\<rparr>
                   (parsed_items t)\<rparr>
      in if th = zhujian
         then t1\<lparr>main_weapons := AList.update id2 nm (main_weapons t1)\<rparr>
         else t1\<lparr>sub_to_main := AList.update id2 id1 (sub_to_main t1)\<rparr>)"

text \<open>
  One turn of the loop over the lines of the file: a blank line is passed over, a line
  of fewer than four fields and a line whose first or second field \<^verbatim>\<open>int\<close> rejects
  are logged and skipped. The fourth field is required and never read.
\<close>

definition generic_line ::
    "ustr \<Rightarrow> generic_tables \<times> log_record list \<Rightarrow> generic_tables \<times> log_record list" where
  "generic_line raw acc =
     (let line = strip raw;
          parts = map strip (split_str (ascii '' -- '') line)
      in if line = [] then acc
         else if length parts < 4 then (fst acc, snd acc @ [Generic_bad_format line])
         else (case py_int (parts ! 0) of
                 None \<Rightarrow> (fst acc, snd acc @ [Generic_bad_id line])
               | Some id1 \<Rightarrow>
                   (case py_int (parts ! 1) of
                      None \<Rightarrow> (fst acc, snd acc @ [Generic_bad_id line])
                    | Some id2 \<Rightarrow> (store_item id1 id2 (parts ! 2) (fst acc), snd acc))))"

text \<open>
  The function catches every exception of its body: \<^verbatim>\<open>FileNotFoundError\<close> in the
  first handler, any other, \<^verbatim>\<open>UnicodeDecodeError\<close> among them, in
  \<^verbatim>\<open>except Exception\<close>. It then returns the dictionaries as the lines read so far
  have left them. The result type keeps the place of an exception that would leave the
  function, for the handlers of the caller.
\<close>

definition parse_generic_code_table ::
    "filesystem \<Rightarrow> path \<Rightarrow> encoding \<Rightarrow> exn + (generic_tables \<times> log_record list)" where
  "parse_generic_code_table fs file_path enc =
     (case fs file_path enc of
        (text, raised) \<Rightarrow>
          (let r = fold generic_line (file_lines text) (no_tables, [])
           in case raised of
                None \<Rightarrow> Inr r
              | Some FileNotFoundError \<Rightarrow> Inr (fst r, snd r @ [Generic_file_not_found])
              | Some e \<Rightarrow> Inr (fst r, snd r @ [Generic_parse_exception e])))"

section \<open>parse\_subway\_code\_table\_file\<close>

definition subway_line ::
    "ustr \<Rightarrow> (int, subway_info) dict \<times> log_record list
      \<Rightarrow> (int, subway_info) dict \<times> log_record list" where
  "subway_line raw acc =
     (let line = strip raw
      in if line = [] then acc
         else (case subway_pattern_match line of
                 None \<Rightarrow> (fst acc, snd acc @ [Subway_no_match line])
               | Some (g1, g2, g3) \<Rightarrow>
                   (case py_int g1 of
                      None \<Rightarrow> (fst acc, snd acc @ [Subway_bad_id line])
                    | Some item_id \<Rightarrow>
                        (AList.update item_id \<lparr>subway_name = g2, hex_code = g3\<rparr> (fst acc),
                         snd acc))))"

definition parse_subway_code_table_file ::
    "filesystem \<Rightarrow> path \<Rightarrow> encoding
      \<Rightarrow> exn + ((int, subway_info) dict \<times> log_record list)" where
  "parse_subway_code_table_file fs file_path enc =
     (case fs file_path enc of
        (text, raised) \<Rightarrow>
          (let r = fold subway_line (file_lines text) ([], [])
           in case raised of
                None \<Rightarrow> Inr r
              | Some FileNotFoundError \<Rightarrow> Inr (fst r, snd r @ [Subway_file_not_found])
              | Some e \<Rightarrow> Inr (fst r, snd r @ [Subway_parse_exception e])))"


section \<open>load\_code\_table\<close>

text \<open>
  The loader empties the four dictionaries and loads each table inside a \<^verbatim>\<open>try\<close> of
  its own: the UTF-8 call of the parser and the \<^verbatim>\<open>update\<close>s; on
  \<^verbatim>\<open>UnicodeDecodeError\<close> a warning, the GBK call and the same \<^verbatim>\<open>update\<close>s (an
  exception of this second call would leave the loader); on any other exception an
  error in the log. It returns the dictionaries with the log of the whole load.
\<close>

definition no_globals :: globals where
  "no_globals =
     \<lparr>item_dict = [], main_weapon_dict = [], sub_to_main_dict = [],
      subway_item_dict = []\<rparr>"

definition update_generic :: "generic_tables \<Rightarrow> globals \<Rightarrow> globals" where
  "update_generic t g =
     g\<lparr>item_dict := dict_update (item_dict g) (parsed_items t),
       main_weapon_dict := dict_update (main_weapon_dict g) (main_weapons t),
       sub_to_main_dict := dict_update (sub_to_main_dict g) (sub_to_main t)\<rparr>"

definition update_subway :: "(int, subway_info) dict \<Rightarrow> globals \<Rightarrow> globals" where
  "update_subway t g = g\<lparr>subway_item_dict := dict_update (subway_item_dict g) t\<rparr>"

definition load_generic ::
    "filesystem \<Rightarrow> globals \<times> log_record list \<Rightarrow> exn + (globals \<times> log_record list)" where
  "load_generic fs st =
     (case parse_generic_code_table fs code_table_path UTF8 of
        Inr (t, lg) \<Rightarrow> Inr (update_generic t (fst st), snd st @ lg)
      | Inl UnicodeDecodeError \<Rightarrow>
          (case parse_generic_code_table fs code_table_path GBK of
             Inr (t, lg) \<Rightarrow>
               Inr (update_generic t (fst st), snd st @ [Generic_gbk_fallback] @ lg)
           | Inl e \<Rightarrow> Inl e)
      | Inl e \<Rightarrow> Inr (fst st, snd st @ [Generic_load_error e]))"

definition load_subway ::
    "filesystem \<Rightarrow> globals \<times> log_record list \<Rightarrow> exn + (globals \<times> log_record list)" where
  "load_subway fs st =
     (case parse_subway_code_table_file fs subway_code_table_path UTF8 of
        Inr (t, lg) \<Rightarrow> Inr (update_subway t (fst st), snd st @ lg)
      | Inl UnicodeDecodeError \<Rightarrow>
          (case parse_subway_code_table_file fs subway_code_table_path GBK of
             Inr (t, lg) \<Rightarrow>
               Inr (update_subway t (fst st), snd st @ [Subway_gbk_fallback] @ lg)
           | Inl e \<Rightarrow> Inl e)
      | Inl e \<Rightarrow> Inr (fst st, snd st @ [Subway_load_error e]))"

definition load_code_table :: "filesystem \<Rightarrow> exn + (globals \<times> log_record list)" where
  "load_code_table fs =
     (case load_generic fs (no_globals, []) of
        Inl e \<Rightarrow> Inl e
      | Inr st \<Rightarrow> load_subway fs st)"

section \<open>query\_item\<close>

text \<open>
  The display text of one ID, the body of the loop of \<^verbatim>\<open>query_item\<close>. A value of
  either dictionary is a non-empty dictionary, which is true in an \<^verbatim>\<open>if\<close>, so
  \<^verbatim>\<open>if item_info\<close> asks whether the ID is a key. \<open>ditie\<close> is the word (subway) that
  marks an entry of the second table, \<open>weizhaodao\<close> is (not found).
\<close>

definition ditie :: ustr where "ditie = [0x5730, 0x94C1]"
definition weizhaodao :: ustr where "weizhaodao = [0x672A, 0x627E, 0x5230]"

definition resolve :: "globals \<Rightarrow> int \<Rightarrow> ustr" where
  "resolve g code =
     (case map_of (item_dict g) code of
        Some item_info \<Rightarrow> name item_info
      | None \<Rightarrow>
          (case map_of (subway_item_dict g) code of
             Some subway_inf \<Rightarrow>
               subway_name subway_inf @ ascii '' ('' @ ditie @ ascii '', '' @ hex_code subway_inf
                 @ ascii '')''
           | None \<Rightarrow> weizhaodao @ ascii ''ID '' @ py_str code))"

definition query_item :: "globals \<Rightarrow> int list \<Rightarrow> ustr" where
  "query_item g codes = join (ascii '', '') (map (resolve g) codes)"

section \<open>The request handler\<close>

text \<open>
  One turn of the loop over the lines of the submitted text; every path through the
  body appends one string to \<^verbatim>\<open>results\<close>, which is the value here. \<open>those\<close> is the
  list comprehension of \<^verbatim>\<open>int(n)\<close>, \<open>None\<close> when one of them raises \<^verbatim>\<open>ValueError\<close>,
  in which case the handler passes the stripped line through.
\<close>

definition annotate_line :: "globals \<Rightarrow> ustr \<Rightarrow> ustr" where
  "annotate_line g line =
     (let stripped_line = strip line
      in if stripped_line = [] then []
         else (case id_match stripped_line of
                 None \<Rightarrow> stripped_line
               | Some numbers_str \<Rightarrow>
                   (case those (map py_int (findall_digits numbers_str)) of
                      None \<Rightarrow> stripped_line
                    | Some numbers \<Rightarrow>
                        if numbers = [] then stripped_line
                        else (let final_comment_from_bot = query_item g numbers;
                                  id_string = join (ascii '', '') (map py_str numbers);
                                  output_line =
                                    (if final_comment_from_bot \<noteq> []
                                     then id_string @ ascii '' #'' @ final_comment_from_bot
                                     else id_string)
                              in strip output_line))))"

text \<open>
  The message shown when no table was loaded: that neither the item code table nor the
  subway table is loaded, and to ask the administrator to look at the server log.
\<close>

definition tables_not_loaded :: ustr where
  "tables_not_loaded =
     [0x7269, 0x54C1, 0x4EE3, 0x7801, 0x8868, 0x548C, 0x5730, 0x94C1, 0x7F8E, 0x5316, 0x4EE3,
      0x7801, 0x8868, 0x5747, 0x672A, 0x52A0, 0x8F7D, 0xFF0C, 0x8BF7, 0x8054, 0x7CFB, 0x7BA1,
      0x7406, 0x5458, 0x68C0, 0x67E5, 0x670D, 0x52A1, 0x5668, 0x65E5, 0x5FD7, 0x3002]"

text \<open>
  The view function \<^verbatim>\<open>index\<close>, for the method of the request and the form field
  \<^verbatim>\<open>user_input\<close>; the result is the pair of texts handed to the template.
\<close>

datatype http_method = GET | POST

record page =
  final_text :: ustr
  error_message :: ustr

definition index :: "globals \<Rightarrow> http_method \<Rightarrow> ustr \<Rightarrow> page" where
  "index g method user_input =
     (if method = POST
      then (if item_dict g = [] \<and> subway_item_dict g = []
            then \<lparr>final_text = [], error_message = tables_not_loaded\<rparr>
            else \<lparr>final_text =
                     join [0x0A] (map (annotate_line g) (split_str [0x0A] user_input)),
                   error_message = []\<rparr>)
      else \<lparr>final_text = [], error_message = []\<rparr>)"


section \<open>The part types of the specification\<close>

text \<open>
  The specification names five part types and classifies a name by an ordered list of
  keyword classes, the first class with a keyword in the name winning and a main weapon
  being the default. \<open>spec_part_type\<close> follows these words; \<open>part_tag\<close> is the string
  the program stores for each part type.
\<close>

datatype part_type = MainWeapon | Magazine | Muzzle | Grip | Sight

definition keyword_classes :: "(ustr list \<times> part_type) list" where
  "keyword_classes =
     [([danxia], Magazine), ([qiangkou], Muzzle), ([woba], Grip),
      ([miaoju, miaozhunjing, jimiao], Sight)]"

definition spec_part_type :: "ustr \<Rightarrow> part_type" where
  "spec_part_type nm =
     (case find (\<lambda>cl. list_ex (\<lambda>k. contains k nm) (fst cl)) keyword_classes of
        None \<Rightarrow> MainWeapon
      | Some cl \<Rightarrow> snd cl)"

fun part_tag :: "part_type \<Rightarrow> ustr" where
  "part_tag MainWeapon = zhujian"
| "part_tag Magazine = danxia"
| "part_tag Muzzle = qiangkou"
| "part_tag Grip = woba"
| "part_tag Sight = jimiao"

section \<open>Table files of the scenarios\<close>

text \<open>
  A server whose two table files decode as UTF-8 to the given texts. \<open>buqiang\<close> is
  (rifle), \<open>jinse_tuzhuang\<close> is (golden finish).
\<close>

definition utf8_files :: "ustr \<Rightarrow> ustr \<Rightarrow> filesystem" where
  "utf8_files generic subway p e =
     (case p of
        code_table_path \<Rightarrow> (generic, None)
      | subway_code_table_path \<Rightarrow> (subway, None))"

definition buqiang :: ustr where "buqiang = [0x6B65, 0x67AA]"
definition jinse_tuzhuang :: ustr where "jinse_tuzhuang = [0x91D1, 0x8272, 0x6D82, 0x88C5]"

text \<open>
  The tables of the specification's scenario as it writes them, with three fields in
  each line of the generic table, and the same tables with a fourth field.
\<close>

definition scenario_subway :: ustr where
  "scenario_subway = ascii ''{501}--{0}--['' @ jinse_tuzhuang @ ascii '']--[0xFFD700]'' @ [0x0A]"

definition scenario_generic3 :: ustr where
  "scenario_generic3 =
     ascii ''1 -- 101 -- AK47'' @ buqiang @ [0x0A]
       @ ascii ''101 -- 201 -- AK47'' @ danxia @ [0x0A]"

definition scenario_generic4 :: ustr where
  "scenario_generic4 =
     ascii ''1 -- 101 -- AK47'' @ buqiang @ ascii '' -- x'' @ [0x0A]
       @ ascii ''101 -- 201 -- AK47'' @ danxia @ ascii '' -- x'' @ [0x0A]"

definition scenario_input :: ustr where
  "scenario_input =
     ascii ''101'' @ [0x0A] @ ascii ''201'' @ [0x0A] @ ascii ''501'' @ [0x0A] @ ascii ''999''
       @ [0x0A] @ ascii ''hello world''"

definition scenario_output :: ustr where
  "scenario_output =
     ascii ''101 #AK47'' @ buqiang @ [0x0A]
       @ ascii ''201 #AK47'' @ danxia @ [0x0A]
       @ ascii ''501 #'' @ jinse_tuzhuang @ ascii '' ('' @ ditie @ ascii '', 0xFFD700)'' @ [0x0A]
       @ ascii ''999 #'' @ weizhaodao @ ascii ''ID 999'' @ [0x0A]
       @ ascii ''hello world''"

definition subway_501 :: "(int, subway_info) dict" where
  "subway_501 = [(501, \<lparr>subway_name = jinse_tuzhuang, hex_code = ascii ''0xFFD700''\<rparr>)]"

text \<open>The dictionaries after loading the scenario's tables, for either generic table.\<close>

definition globals3 :: globals where
  "globals3 =
     \<lparr>item_dict = [], main_weapon_dict = [], sub_to_main_dict = [],
      subway_item_dict = subway_501\<rparr>"

definition globals4 :: globals where
  "globals4 =
     \<lparr>item_dict =
        [(101, \<lparr>name = ascii ''AK47'' @ buqiang, type_hint = zhujian, parent = None\<rparr>),
         (201, \<lparr>name = ascii ''AK47'' @ danxia, type_hint = danxia, parent = Some 101\<rparr>)],
      main_weapon_dict = [(101, ascii ''AK47'' @ buqiang)],
      sub_to_main_dict = [(201, 101)],
      subway_item_dict = subway_501\<rparr>"

text \<open>
  A generic table whose only line has an empty name between its second and its third
  separator, and the dictionaries it loads to.
\<close>

definition nameless_generic :: ustr where
  "nameless_generic = ascii ''1 -- 2 --  -- x'' @ [0x0A]"

definition nameless_globals :: globals where
  "nameless_globals =
     \<lparr>item_dict = [(2, \<lparr>name = [], type_hint = zhujian, parent = None\<rparr>)],
      main_weapon_dict = [(2, [])], sub_to_main_dict = [], subway_item_dict = []\<rparr>"

text \<open>
  A server whose generic table is stored in GBK: read as UTF-8 the file raises
  \<^verbatim>\<open>UnicodeDecodeError\<close> before its first line is complete, read as GBK it is the
  generic table of the scenario. The subway table is UTF-8.
\<close>

definition gbk_files :: filesystem where
  "gbk_files p e =
     (case p of
        code_table_path \<Rightarrow>
          (case e of
             UTF8 \<Rightarrow> ([], Some UnicodeDecodeError)
           | GBK \<Rightarrow> (scenario_generic4, None))
      | subway_code_table_path \<Rightarrow> (scenario_subway, None))"

text \<open>A server with neither file.\<close>

definition no_files :: filesystem where
  "no_files p e = ([], Some FileNotFoundError)"

section \<open>Numbers of digit strings\<close>

text \<open>
  The number that a string of decimal digits denotes, read from the left: what
  \<^verbatim>\<open>int\<close> returns for a run of digits. It is used to state what \<open>py_int\<close> computes.
\<close>

definition digit_step :: "nat \<Rightarrow> nat \<Rightarrow> nat" where
  "digit_step a c = 10 * a + (case decimal_value c of None \<Rightarrow> 0 | Some v \<Rightarrow> v)"

definition digits_value :: "ustr \<Rightarrow> nat" where
  "digits_value s = foldl digit_step 0 s"

text \<open>A text that does not go on with a digit: the place where a run of digits ends.\<close>

definition no_digit_head :: "ustr \<Rightarrow> bool" where
  "no_digit_head r = (case r of [] \<Rightarrow> True | c # _ \<Rightarrow> \<not> isdecimal c)"

text \<open>
  \<^verbatim>\<open>", ".join(map(str, numbers))\<close> for numbers that are not negative, as those of a
  run are.
\<close>

definition id_string :: "nat list \<Rightarrow> ustr" where
  "id_string ns = join (ascii '', '') (map (\<lambda>n. py_str (int n)) ns)"

text \<open>The output line for the numbers of a run, as the last lines of the loop build it.\<close>

definition render :: "globals \<Rightarrow> nat list \<Rightarrow> ustr" where
  "render g ns =
     strip (if query_item g (map int ns) \<noteq> []
            then id_string ns @ ascii '' #'' @ query_item g (map int ns)
            else id_string ns)"

text \<open>
  A text of one line, and dictionaries whose names and hex codes are such texts, as
  those read from the lines of a file are.
\<close>

definition no_newline :: "ustr \<Rightarrow> bool" where
  "no_newline s = (0x0A \<notin> set s)"

definition clean_names :: "globals \<Rightarrow> bool" where
  "clean_names g =
     (list_all (\<lambda>kv. no_newline (name (snd kv))) (item_dict g)
      \<and> list_all (\<lambda>kv. no_newline (subway_name (snd kv)) \<and> no_newline (hex_code (snd kv)))
           (subway_item_dict g))"

section \<open>Character classes\<close>

lemma find_Some_holds: "find P xs = Some x \<Longrightarrow> x \<in> set xs \<and> P x"
  by (induction xs) (auto split: if_splits)

lemma decimal_value_block:
  assumes "decimal_value c = Some v"
  shows "\<exists>z \<in> set digit_zeros. z \<le> c \<and> c < z + 10 \<and> v = c - z"
proof (cases "find (\<lambda>z. z \<le> c \<and> c < z + 10) digit_zeros")
  case None
  with assms show ?thesis by (simp add: decimal_value_def)
next
  case (Some z)
  then have "z \<in> set digit_zeros \<and> (z \<le> c \<and> c < z + 10)"
    by (rule find_Some_holds)
  moreover from assms Some have "v = c - z"
    by (simp add: decimal_value_def)
  ultimately show ?thesis by blast
qed

lemma decimal_value_less_10: "decimal_value c = Some v \<Longrightarrow> v < 10"
  by (drule decimal_value_block) auto

lemma decimal_value_low:
  "c < 0x660 \<Longrightarrow>
     decimal_value c = (if 0x30 \<le> c \<and> c \<le> 0x39 then Some (c - 0x30) else None)"
  by (simp add: decimal_value_def digit_zeros_def)

lemma isdecimal_low: "c < 0x660 \<Longrightarrow> isdecimal c = (0x30 \<le> c \<and> c \<le> 0x39)"
  by (simp add: isdecimal_def decimal_value_low)

lemma decimal_value_han: "0x1C5A \<le> c \<Longrightarrow> c < 0xA620 \<Longrightarrow> decimal_value c = None"
  by (simp add: decimal_value_def digit_zeros_def)

lemma isdecimal_han: "0x1C5A \<le> c \<Longrightarrow> c < 0xA620 \<Longrightarrow> \<not> isdecimal c"
  by (simp add: isdecimal_def decimal_value_han)

text \<open>The blocks of digits leave room for the white space between them.\<close>

lemma digit_zeros_gaps:
  "list_all
     (\<lambda>z. 0x30 \<le> z \<and> (z + 10 \<le> 0x85 \<or> 0xA0 < z) \<and> (z + 10 \<le> 0x1680 \<or> 0x1680 < z)
           \<and> (z + 10 \<le> 0x2000 \<or> 0x3000 < z))
     digit_zeros"
  by (simp add: digit_zeros_def)

lemma isspace_not_decimal: "isspace c \<Longrightarrow> \<not> isdecimal c"
proof
  assume s: "isspace c" and "isdecimal c"
  then obtain z where z: "z \<in> set digit_zeros" "z \<le> c" "c < z + 10"
    using decimal_value_block [of c] by (auto simp: isdecimal_def)
  from z(1) have g: "0x30 \<le> z" "z + 10 \<le> 0x85 \<or> 0xA0 < z" "z + 10 \<le> 0x1680 \<or> 0x1680 < z"
    "z + 10 \<le> 0x2000 \<or> 0x3000 < z"
    using digit_zeros_gaps by (auto simp: list_all_iff)
  from s have "c \<le> 0x20 \<or> (0x85 \<le> c \<and> c \<le> 0xA0) \<or> c = 0x1680
      \<or> (0x2000 \<le> c \<and> c \<le> 0x3000)"
    by (auto simp: isspace_def)
  with z(2,3) g show False
    by auto
qed

lemma isspace_low:
  "c < 0x85 \<Longrightarrow> isspace c = ((0x09 \<le> c \<and> c \<le> 0x0D) \<or> (0x1C \<le> c \<and> c \<le> 0x20))"
  by (auto simp: isspace_def)

lemma isspace_han: "0x3001 \<le> c \<Longrightarrow> \<not> isspace c"
  by (auto simp: isspace_def)

text \<open>Rules that evaluate the functions of this theory on the texts of the scenarios.\<close>

lemmas char_eval =
  isspace_low isspace_han isdecimal_low isdecimal_han decimal_value_low decimal_value_han

lemmas str_eval =
  ascii_def strip_def lstrip_def rstrip_def literal_def many1_def py_int_def int_value_def
  int_max_str_digits_def int_space_def
  int_unsigned_def py_str_def digits_of.simps

lemmas word_eval =
  zhujian_def danxia_def qiangkou_def woba_def miaoju_def miaozhunjing_def jimiao_def
  ditie_def weizhaodao_def buqiang_def jinse_tuzhuang_def

lemmas parse_eval =
  parse_generic_code_table_def parse_subway_code_table_file_def file_lines_def
  generic_line_def subway_line_def subway_pattern_match_def not_rbracket_def ishex_def
  store_item_def classify_def no_tables_def Let_def

lemmas load_eval =
  load_code_table_def load_generic_def load_subway_def update_generic_def update_subway_def
  dict_update_def no_globals_def

lemmas index_eval =
  index_def annotate_line_def id_match_def more_ids.simps findall_digits.simps
  query_item_def resolve_def

section \<open>The scenario of the specification\<close>

lemma file_lines_Nil: "file_lines [] = []"
  by (simp add: file_lines_def)

lemma fold_scenario_subway:
  "fold subway_line (file_lines scenario_subway) ([], []) = (subway_501, [])"
  by (simp add: scenario_subway_def subway_501_def parse_eval str_eval char_eval word_eval)

lemma fold_scenario_generic4:
  "fold generic_line (file_lines scenario_generic4) (no_tables, [])
     = (\<lparr>parsed_items = item_dict globals4, main_weapons = main_weapon_dict globals4,
          sub_to_main = sub_to_main_dict globals4\<rparr>, [])"
  by (simp add: scenario_generic4_def globals4_def parse_eval str_eval char_eval word_eval)

lemma parse_scenario_subway:
  "parse_subway_code_table_file (utf8_files generic scenario_subway) subway_code_table_path UTF8
     = Inr (subway_501, [])"
  by (simp add: utf8_files_def parse_subway_code_table_file_def fold_scenario_subway)

lemma parse_scenario_generic3:
  "parse_generic_code_table (utf8_files scenario_generic3 subway) code_table_path UTF8
     = Inr (no_tables,
         [Generic_bad_format (ascii ''1 -- 101 -- AK47'' @ buqiang),
          Generic_bad_format (ascii ''101 -- 201 -- AK47'' @ danxia)])"
  by (simp add: utf8_files_def scenario_generic3_def parse_eval str_eval char_eval word_eval)

lemma parse_scenario_generic4:
  "parse_generic_code_table (utf8_files scenario_generic4 subway) code_table_path UTF8
     = Inr (\<lparr>parsed_items = item_dict globals4, main_weapons = main_weapon_dict globals4,
              sub_to_main = sub_to_main_dict globals4\<rparr>, [])"
  by (simp add: utf8_files_def parse_generic_code_table_def fold_scenario_generic4)

lemma load_scenario3:
  "load_code_table (utf8_files scenario_generic3 scenario_subway)
     = Inr (globals3,
         [Generic_bad_format (ascii ''1 -- 101 -- AK47'' @ buqiang),
          Generic_bad_format (ascii ''101 -- 201 -- AK47'' @ danxia)])"
  by (simp add: load_eval parse_scenario_generic3 parse_scenario_subway globals3_def
      no_tables_def subway_501_def)

lemma load_scenario4:
  "load_code_table (utf8_files scenario_generic4 scenario_subway) = Inr (globals4, [])"
  by (simp add: load_eval parse_scenario_generic4 parse_scenario_subway globals4_def
      subway_501_def)

lemma index_scenario3:
  "final_text (index globals3 POST scenario_input)
     = ascii ''101 #'' @ weizhaodao @ ascii ''ID 101'' @ [0x0A]
       @ ascii ''201 #'' @ weizhaodao @ ascii ''ID 201'' @ [0x0A]
       @ ascii ''501 #'' @ jinse_tuzhuang @ ascii '' ('' @ ditie @ ascii '', 0xFFD700)'' @ [0x0A]
       @ ascii ''999 #'' @ weizhaodao @ ascii ''ID 999'' @ [0x0A]
       @ ascii ''hello world''"
  by (simp add: index_eval globals3_def subway_501_def scenario_input_def str_eval char_eval
      word_eval)

lemma index_scenario4: "final_text (index globals4 POST scenario_input) = scenario_output"
  by (simp add: index_eval globals4_def subway_501_def scenario_input_def scenario_output_def
      str_eval char_eval word_eval)

text \<open>
  Claim C1, as the specification states it: with the generic table holding the lines
  \<^verbatim>\<open>1 -- 101 -- AK47<rifle>\<close> and \<^verbatim>\<open>101 -- 201 -- AK47<magazine>\<close> and the subway table
  holding \<^verbatim>\<open>{501}--{0}--[<golden finish>]--[0xFFD700]\<close>, the five input lines give the
  five output lines of \<open>scenario_output\<close>. It fails on the program: both generic lines
  have three fields, the parser asks for four, logs both lines as badly formed and
  stores nothing, so 101 and 201 are answered as not found.
\<close>

theorem scenario_three_fields_counterexample:
  "load_code_table (utf8_files scenario_generic3 scenario_subway)
     = Inr (globals3,
         [Generic_bad_format (ascii ''1 -- 101 -- AK47'' @ buqiang),
          Generic_bad_format (ascii ''101 -- 201 -- AK47'' @ danxia)])
   \<and> item_dict globals3 = []
   \<and> final_text (index globals3 POST scenario_input) \<noteq> scenario_output"
  by (simp add: load_scenario3 index_scenario3)
    (simp add: globals3_def scenario_output_def ascii_def word_eval)

text \<open>
  Claim C1, amended: with a fourth field in each line of the generic table
  (\<^verbatim>\<open>1 -- 101 -- AK47<rifle> -- x\<close> and \<^verbatim>\<open>101 -- 201 -- AK47<magazine> -- x\<close>) the load
  stores both items without a log record, and the five input lines give exactly the
  five output lines of the scenario.
\<close>

theorem scenario_four_fields:
  "load_code_table (utf8_files scenario_generic4 scenario_subway) = Inr (globals4, [])
   \<and> final_text (index globals4 POST scenario_input) = scenario_output"
  by (simp add: load_scenario4 index_scenario4)


section \<open>Reading and writing integers\<close>

lemma digits_of_nonempty: "digits_of n \<noteq> []"
  by (subst digits_of.simps) simp

lemma digits_of_ascii: "c \<in> set (digits_of n) \<Longrightarrow> 0x30 \<le> c \<and> c \<le> 0x39"
proof (induction n rule: digits_of.induct)
  case (1 n)
  show ?case
  proof (cases "n < 10")
    case True
    with "1.prems" show ?thesis by (subst (asm) digits_of.simps) simp
  next
    case False
    have "n mod 10 < 10" by simp
    with False "1.prems" "1.IH" show ?thesis
      by (subst (asm) digits_of.simps) (auto simp del: mod_less_divisor)
  qed
qed

lemma digits_of_decimal: "list_all isdecimal (digits_of n)"
  by (auto simp: list_all_iff isdecimal_low dest!: digits_of_ascii)

lemma int_digits_all:
  "list_all isdecimal s \<Longrightarrow> int_digits acc s = Some (foldl digit_step acc s)"
proof (induction acc s rule: int_digits.induct)
  case (1 acc)
  show ?case by simp
next
  case (2 acc c)
  then show ?case by (auto simp: isdecimal_def digit_step_def)
next
  case (3 acc c d cs)
  then show ?case by (auto simp: isdecimal_def digit_step_def)
qed

lemma int_unsigned_all:
  "s \<noteq> [] \<Longrightarrow> list_all isdecimal s \<Longrightarrow> int_unsigned s = Some (digits_value s)"
  by (cases s) (auto simp: int_unsigned_def digits_value_def isdecimal_def int_digits_all digit_step_def)

lemma int_space_not_decimal: "int_space c \<Longrightarrow> \<not> isdecimal c"
  by (simp add: int_space_def isspace_not_decimal)

lemma dropWhile_hd_id: "s \<noteq> [] \<Longrightarrow> \<not> P (hd s) \<Longrightarrow> dropWhile P s = s"
  by (cases s) auto

lemma rev_dropWhile_last_id: "s \<noteq> [] \<Longrightarrow> \<not> P (last s) \<Longrightarrow> rev (dropWhile P (rev s)) = s"
  by (simp add: dropWhile_hd_id hd_rev)

lemma int_value_all:
  assumes "s \<noteq> []" "list_all isdecimal s"
  shows "int_value s = Some (int (digits_value s))"
proof -
  from assms have h: "isdecimal (hd s)" and l: "isdecimal (last s)"
    by (auto simp: list_all_iff)
  have "dropWhile int_space s = s"
    using assms(1) h int_space_not_decimal by (intro dropWhile_hd_id) auto
  moreover have "rev (dropWhile int_space (rev s)) = s"
    using assms(1) l int_space_not_decimal by (intro rev_dropWhile_last_id) auto
  moreover obtain c cs where s: "s = c # cs" using assms(1) by (cases s) auto
  moreover have "c \<noteq> 0x2D" "c \<noteq> 0x2B" using h s by (auto simp: isdecimal_low)
  ultimately show ?thesis
    using int_unsigned_all [OF assms] by (simp add: int_value_def)
qed

lemma filter_all: "list_all P s \<Longrightarrow> filter P s = s"
  by (simp add: list_all_iff)

lemma py_int_all:
  assumes "s \<noteq> []" "list_all isdecimal s" "length s \<le> int_max_str_digits"
  shows "py_int s = Some (int (digits_value s))"
  using assms by (simp add: py_int_def filter_all int_value_all)

lemma py_int_long:
  assumes "list_all isdecimal s" "int_max_str_digits < length s"
  shows "py_int s = None"
  using assms by (simp add: py_int_def filter_all)

lemma py_int_int_value: "py_int s = Some n \<Longrightarrow> int_value s = Some n"
  by (simp add: py_int_def split: if_splits)

lemma digits_value_bound:
  "list_all isdecimal s \<Longrightarrow> foldl digit_step a s + 1 \<le> (a + 1) * 10 ^ length s"
proof (induction s arbitrary: a)
  case Nil
  show ?case by simp
next
  case (Cons c s)
  from Cons.prems obtain v where v: "decimal_value c = Some v"
    by (auto simp: isdecimal_def)
  then have "v < 10"
    by (rule decimal_value_less_10)
  then have "(10 * a + v + 1) * 10 ^ length s \<le> (10 * a + 10) * 10 ^ length s"
    by (intro mult_le_mono1) simp
  moreover have "foldl digit_step (10 * a + v) s + 1 \<le> (10 * a + v + 1) * 10 ^ length s"
    using Cons.prems by (intro Cons.IH) simp
  moreover have "digit_step a c = 10 * a + v"
    using v by (simp add: digit_step_def)
  moreover have "(10 * a + 10) * 10 ^ length s = (a + 1) * 10 ^ length (c # s)"
    by (simp add: algebra_simps)
  ultimately show ?case
    by (simp del: power_Suc add_Suc_right mult_Suc_right)
qed

lemma digits_value_less: "list_all isdecimal s \<Longrightarrow> digits_value s < 10 ^ length s"
  using digits_value_bound [of s 0] by (simp add: digits_value_def)

lemma length_digits_of: "n < 10 ^ k \<Longrightarrow> 0 < k \<Longrightarrow> length (digits_of n) \<le> k"
proof (induction n arbitrary: k rule: digits_of.induct)
  case (1 n)
  show ?case
  proof (cases "n < 10")
    case True
    with "1.prems" show ?thesis
      by (subst digits_of.simps) simp
  next
    case False
    with "1.prems" obtain j where k: "k = Suc j" and j: "0 < j"
      by (cases k; cases "k - 1") auto
    from "1.prems"(1) have "n div 10 < 10 ^ j"
      unfolding k by (simp add: less_mult_imp_div_less mult.commute)
    with False j have "length (digits_of (n div 10)) \<le> j"
      by (intro "1.IH") simp_all
    with False show ?thesis
      by (subst digits_of.simps) (simp add: k)
  qed
qed

lemma digits_of_digits_value_length:
  assumes "s \<noteq> []" "list_all isdecimal s"
  shows "length (digits_of (digits_value s)) \<le> length s"
  using assms by (intro length_digits_of digits_value_less) simp_all

lemma digits_value_digits_of: "digits_value (digits_of n) = n"
proof (induction n rule: digits_of.induct)
  case (1 n)
  show ?case
  proof (cases "n < 10")
    case True
    then show ?thesis
      by (subst digits_of.simps) (simp add: digits_value_def digit_step_def decimal_value_low)
  next
    case False
    have m: "n mod 10 < 10" by simp
    have "decimal_value (0x30 + n mod 10) = Some (n mod 10)"
      using m by (simp add: decimal_value_low del: mod_less_divisor)
    with False "1.IH" show ?thesis
      by (subst digits_of.simps) (simp add: digits_value_def digit_step_def)
  qed
qed

lemma py_int_digits_of:
  "length (digits_of n) \<le> int_max_str_digits \<Longrightarrow> py_int (digits_of n) = Some (int n)"
  by (simp add: py_int_all digits_of_nonempty digits_of_decimal digits_value_digits_of)

lemma int_value_digits_of: "int_value (digits_of n) = Some (int n)"
  by (simp add: int_value_all digits_of_nonempty digits_of_decimal digits_value_digits_of)

lemma int_value_py_str: "int_value (py_str i) = Some i"
proof (cases "i < 0")
  case False
  then show ?thesis by (simp add: py_str_def int_value_digits_of)
next
  case True
  let ?d = "digits_of (nat (- i))"
  have "isdecimal (last ?d)"
    using digits_of_decimal [of "nat (- i)"] digits_of_nonempty [of "nat (- i)"]
    by (auto simp: list_all_iff)
  then have "\<not> int_space (last (0x2D # ?d))"
    using int_space_not_decimal digits_of_nonempty by auto
  then have "rev (dropWhile int_space (rev (0x2D # ?d))) = 0x2D # ?d"
    by (intro rev_dropWhile_last_id) auto
  moreover have "\<not> int_space 0x2D" by (simp add: int_space_def isspace_low)
  ultimately have "int_value (0x2D # ?d) = map_option (\<lambda>n. - int n) (int_unsigned ?d)"
    by (simp add: int_value_def)
  with True show ?thesis
    by (simp add: py_str_def int_unsigned_all digits_of_nonempty digits_of_decimal
        digits_value_digits_of)
qed

section \<open>The loader never falls back to GBK\<close>

lemma parse_generic_returns: "\<exists>r. parse_generic_code_table fs p e = Inr r"
  by (auto simp: parse_generic_code_table_def Let_def split: prod.splits option.splits exn.splits)

lemma parse_subway_returns: "\<exists>r. parse_subway_code_table_file fs p e = Inr r"
  by (auto simp: parse_subway_code_table_file_def Let_def
      split: prod.splits option.splits exn.splits)

lemma load_generic_utf8:
  assumes "parse_generic_code_table fs code_table_path UTF8 = Inr (t, lg)"
  shows "load_generic fs st = Inr (update_generic t (fst st), snd st @ lg)"
  using assms by (simp add: load_generic_def)

lemma load_subway_utf8:
  assumes "parse_subway_code_table_file fs subway_code_table_path UTF8 = Inr (t, lg)"
  shows "load_subway fs st = Inr (update_subway t (fst st), snd st @ lg)"
  using assms by (simp add: load_subway_def)

lemma load_code_table_utf8:
  assumes "parse_generic_code_table fs code_table_path UTF8 = Inr (t, lg)"
    and "parse_subway_code_table_file fs subway_code_table_path UTF8 = Inr (t', lg')"
  shows "load_code_table fs
           = Inr (update_subway t' (update_generic t no_globals), lg @ lg')"
  using assms by (simp add: load_code_table_def load_generic_utf8 load_subway_utf8)

text \<open>
  The loader returns in every case, and what it returns does not depend on what a GBK
  reading of either file would give.
\<close>

lemma load_code_table_returns: "\<exists>g lg. load_code_table fs = Inr (g, lg)"
proof -
  obtain t lg where "parse_generic_code_table fs code_table_path UTF8 = Inr (t, lg)"
    using parse_generic_returns [of fs code_table_path UTF8] by auto
  moreover obtain t' lg' where
    "parse_subway_code_table_file fs subway_code_table_path UTF8 = Inr (t', lg')"
    using parse_subway_returns [of fs subway_code_table_path UTF8] by auto
  ultimately show ?thesis by (auto simp: load_code_table_utf8)
qed

lemma load_code_table_ignores_gbk:
  "load_code_table fs = load_code_table (\<lambda>p e. fs p UTF8)"
proof -
  obtain t lg where g: "parse_generic_code_table fs code_table_path UTF8 = Inr (t, lg)"
    using parse_generic_returns [of fs code_table_path UTF8] by auto
  obtain t' lg' where
    s: "parse_subway_code_table_file fs subway_code_table_path UTF8 = Inr (t', lg')"
    using parse_subway_returns [of fs subway_code_table_path UTF8] by auto
  have "parse_generic_code_table (\<lambda>p e. fs p UTF8) code_table_path UTF8 = Inr (t, lg)"
    using g by (simp add: parse_generic_code_table_def)
  moreover have
    "parse_subway_code_table_file (\<lambda>p e. fs p UTF8) subway_code_table_path UTF8 = Inr (t', lg')"
    using s by (simp add: parse_subway_code_table_file_def)
  ultimately show ?thesis
    using g s by (simp add: load_code_table_utf8)
qed

text \<open>No load writes a fallback warning to the log.\<close>

lemma fold_generic_line_log:
  "x \<in> set (snd (fold generic_line ls acc)) \<Longrightarrow>
     x \<in> set (snd acc) \<or> (\<exists>l. x = Generic_bad_format l \<or> x = Generic_bad_id l)"
proof (induction ls arbitrary: acc)
  case Nil
  then show ?case by simp
next
  case (Cons l ls)
  from Cons.IH [OF Cons.prems [simplified]] show ?case
    by (auto simp: generic_line_def Let_def split: if_splits option.splits)
qed

lemma fold_subway_line_log:
  "x \<in> set (snd (fold subway_line ls acc)) \<Longrightarrow>
     x \<in> set (snd acc) \<or> (\<exists>l. x = Subway_no_match l \<or> x = Subway_bad_id l)"
proof (induction ls arbitrary: acc)
  case Nil
  then show ?case by simp
next
  case (Cons l ls)
  from Cons.IH [OF Cons.prems [simplified]] show ?case
    by (auto simp: subway_line_def Let_def split: if_splits option.splits)
qed

lemma parse_generic_log:
  assumes "parse_generic_code_table fs p e = Inr (t, l)" and "x \<in> set l"
  shows "x \<noteq> Generic_gbk_fallback \<and> x \<noteq> Subway_gbk_fallback"
proof -
  obtain content raised where f: "fs p e = (content, raised)" by (cases "fs p e")
  let ?r = "fold generic_line (file_lines content) (no_tables, [])"
  have "l = snd ?r \<or> l = snd ?r @ [Generic_file_not_found]
      \<or> (\<exists>e. l = snd ?r @ [Generic_parse_exception e])"
    using assms(1) f
    by (auto simp: parse_generic_code_table_def Let_def split: option.splits exn.splits)
  with assms(2) have "x \<in> set (snd ?r) \<or> x = Generic_file_not_found
      \<or> (\<exists>e. x = Generic_parse_exception e)"
    by auto
  moreover have "\<exists>l. x = Generic_bad_format l \<or> x = Generic_bad_id l" if "x \<in> set (snd ?r)"
    using fold_generic_line_log [OF that] by simp
  ultimately show ?thesis by auto
qed

lemma parse_subway_log:
  assumes "parse_subway_code_table_file fs p e = Inr (t, l)" and "x \<in> set l"
  shows "x \<noteq> Generic_gbk_fallback \<and> x \<noteq> Subway_gbk_fallback"
proof -
  obtain content raised where f: "fs p e = (content, raised)" by (cases "fs p e")
  let ?r = "fold subway_line (file_lines content) ([], [])"
  have "l = snd ?r \<or> l = snd ?r @ [Subway_file_not_found]
      \<or> (\<exists>e. l = snd ?r @ [Subway_parse_exception e])"
    using assms(1) f
    by (auto simp: parse_subway_code_table_file_def Let_def split: option.splits exn.splits)
  with assms(2) have "x \<in> set (snd ?r) \<or> x = Subway_file_not_found
      \<or> (\<exists>e. x = Subway_parse_exception e)"
    by auto
  moreover have "\<exists>l. x = Subway_no_match l \<or> x = Subway_bad_id l" if "x \<in> set (snd ?r)"
    using fold_subway_line_log [OF that] by simp
  ultimately show ?thesis by auto
qed

lemma load_code_table_no_fallback:
  assumes "load_code_table fs = Inr (g, lg)"
  shows "Generic_gbk_fallback \<notin> set lg \<and> Subway_gbk_fallback \<notin> set lg"
proof -
  obtain t l where t: "parse_generic_code_table fs code_table_path UTF8 = Inr (t, l)"
    using parse_generic_returns [of fs code_table_path UTF8] by auto
  obtain t' l' where
    t': "parse_subway_code_table_file fs subway_code_table_path UTF8 = Inr (t', l')"
    using parse_subway_returns [of fs subway_code_table_path UTF8] by auto
  have lg: "lg = l @ l'"
    using assms load_code_table_utf8 [OF t t'] by simp
  show ?thesis
    unfolding lg using parse_generic_log [OF t] parse_subway_log [OF t'] by auto
qed

lemma parse_gbk_generic:
  "parse_generic_code_table gbk_files code_table_path GBK
     = Inr (\<lparr>parsed_items = item_dict globals4, main_weapons = main_weapon_dict globals4,
              sub_to_main = sub_to_main_dict globals4\<rparr>, [])"
  by (simp add: gbk_files_def parse_generic_code_table_def fold_scenario_generic4)

lemma load_gbk_files:
  "load_code_table gbk_files = Inr (globals3, [Generic_parse_exception UnicodeDecodeError])"
  by (simp add: load_eval gbk_files_def parse_generic_code_table_def
      parse_subway_code_table_file_def fold_scenario_subway globals3_def subway_501_def
      file_lines_Nil no_tables_def)

text \<open>
  Claim C4: a table file that does not decode as UTF-8 is read once more as GBK, with
  a warning in the log, so that its records are loaded. The program does not do this:
  \<^verbatim>\<open>UnicodeDecodeError\<close> is raised inside \<^verbatim>\<open>parse_generic_code_table\<close> and caught
  there by \<^verbatim>\<open>except Exception\<close>, so the handler of \<^verbatim>\<open>load_code_table\<close> that reads the
  file as GBK never runs. For the GBK file of \<open>gbk_files\<close>, whose GBK reading holds the
  two items of the scenario, the load ends with no item, and the log holds the caught
  exception and no fallback warning.
\<close>

theorem gbk_table_not_loaded:
  "parse_generic_code_table gbk_files code_table_path GBK
     = Inr (\<lparr>parsed_items = item_dict globals4, main_weapons = main_weapon_dict globals4,
              sub_to_main = sub_to_main_dict globals4\<rparr>, [])
   \<and> load_code_table gbk_files = Inr (globals3, [Generic_parse_exception UnicodeDecodeError])
   \<and> item_dict globals3 = []
   \<and> map_of (item_dict globals4) 101
       = Some \<lparr>name = ascii ''AK47'' @ buqiang, type_hint = zhujian, parent = None\<rparr>"
  by (simp add: parse_gbk_generic load_gbk_files) (simp add: globals3_def globals4_def)

section \<open>resolve\<close>

lemma load_nameless:
  "load_code_table (utf8_files nameless_generic []) = Inr (nameless_globals, [])"
  by (simp add: load_eval utf8_files_def nameless_generic_def nameless_globals_def parse_eval
      str_eval char_eval word_eval)

text \<open>
  Claim C2, as stated: \<open>resolve\<close> returns a non-empty string for every ID. It fails for
  an item whose name field is empty: the generic table line \<^verbatim>\<open>1 -- 2 --  -- x\<close> has four
  fields, the third of them empty, and loads item 2 with the empty name, which is what
  \<open>resolve\<close> returns for 2.
\<close>

theorem resolve_empty_counterexample:
  "load_code_table (utf8_files nameless_generic []) = Inr (nameless_globals, [])
   \<and> resolve nameless_globals 2 = []"
  by (simp add: load_nameless) (simp add: resolve_def nameless_globals_def)

text \<open>
  Claim C2, amended: for every integer ID \<open>resolve\<close> returns a string, by table
  precedence: the name of the generic table when the ID is a key of it, also when the
  subway table has the ID too; otherwise the subway entry as
  \<^verbatim>\<open><name> (<subway>, <hex code>)\<close>; otherwise the not-found text followed by the ID,
  whose digits after the six characters of the words read as the ID (\<open>int_value\<close>, the
  reading of \<^verbatim>\<open>int\<close> without its limit on the number of digits), and which \<^verbatim>\<open>int\<close>
  reads back from there unless the ID has more digits than the limit. The string is
  empty only when it is the name of a generic item and that name is empty.
\<close>

theorem resolve_result:
  "(map_of (item_dict g) code = Some info \<longrightarrow> resolve g code = name info)
   \<and> (map_of (item_dict g) code = None \<and> map_of (subway_item_dict g) code = Some sw \<longrightarrow>
        resolve g code
          = subway_name sw @ ascii '' ('' @ ditie @ ascii '', '' @ hex_code sw @ ascii '')''
        \<and> resolve g code \<noteq> [])
   \<and> (map_of (item_dict g) code = None \<and> map_of (subway_item_dict g) code = None \<longrightarrow>
        resolve g code = weizhaodao @ ascii ''ID '' @ py_str code
        \<and> resolve g code \<noteq> []
        \<and> int_value (drop 6 (resolve g code)) = Some code
        \<and> py_int (drop 6 (resolve g code))
            = (if int_max_str_digits < length (filter isdecimal (py_str code)) then None
               else Some code))
   \<and> (resolve g code = [] \<longleftrightarrow> (\<exists>i. map_of (item_dict g) code = Some i \<and> name i = []))"
proof -
  have "weizhaodao @ ascii ''ID '' @ py_str code \<noteq> []"
    by (simp add: weizhaodao_def)
  moreover have "drop 6 (weizhaodao @ ascii ''ID '' @ py_str code) = py_str code"
    by (simp add: weizhaodao_def ascii_def)
  moreover have "subway_name sw @ ascii '' ('' @ ditie @ ascii '', '' @ hex_code sw @ ascii '')'' \<noteq> []"
    for sw by (simp add: ascii_def)
  ultimately show ?thesis
    by (auto simp: resolve_def py_int_def int_value_py_str split: option.splits)
qed

theorem resolve_result_witness:
  "map_of (item_dict globals4) 101
     = Some \<lparr>name = ascii ''AK47'' @ buqiang, type_hint = zhujian, parent = None\<rparr>
   \<and> resolve globals4 101 = ascii ''AK47'' @ buqiang
   \<and> map_of (item_dict globals4) 501 = None
   \<and> map_of (subway_item_dict globals4) 501
       = Some \<lparr>subway_name = jinse_tuzhuang, hex_code = ascii ''0xFFD700''\<rparr>
   \<and> resolve globals4 501 = jinse_tuzhuang @ ascii '' ('' @ ditie @ ascii '', 0xFFD700)''
   \<and> map_of (item_dict globals4) 999 = None
   \<and> map_of (subway_item_dict globals4) 999 = None
   \<and> resolve globals4 999 = weizhaodao @ ascii ''ID 999''
   \<and> int_value (drop 6 (resolve globals4 999)) = Some 999
   \<and> py_int (drop 6 (resolve globals4 999)) = Some 999"
proof -
  have a: "map_of (item_dict globals4) 101
      = Some \<lparr>name = ascii ''AK47'' @ buqiang, type_hint = zhujian, parent = None\<rparr>"
    by (simp add: globals4_def)
  have b: "map_of (item_dict globals4) 501 = None"
    "map_of (subway_item_dict globals4) 501
      = Some \<lparr>subway_name = jinse_tuzhuang, hex_code = ascii ''0xFFD700''\<rparr>"
    by (simp_all add: globals4_def subway_501_def)
  have c: "map_of (item_dict globals4) 999 = None"
    "map_of (subway_item_dict globals4) 999 = None"
    by (simp_all add: globals4_def subway_501_def)
  have s: "py_str 999 = ascii ''999''"
    by (simp add: py_str_def digits_of.simps ascii_def)
  have "resolve globals4 101 = ascii ''AK47'' @ buqiang"
    using a resolve_result [where g = globals4 and code = 101
      and info = "\<lparr>name = ascii ''AK47'' @ buqiang, type_hint = zhujian, parent = None\<rparr>"]
    by simp
  moreover have
    "resolve globals4 501 = jinse_tuzhuang @ ascii '' ('' @ ditie @ ascii '', 0xFFD700)''"
    using b resolve_result [where g = globals4 and code = 501
      and sw = "\<lparr>subway_name = jinse_tuzhuang, hex_code = ascii ''0xFFD700''\<rparr>"]
    by (simp add: ascii_def)
  moreover have r: "resolve globals4 999 = weizhaodao @ ascii ''ID '' @ py_str 999"
    and p: "int_value (drop 6 (resolve globals4 999)) = Some 999"
    and i: "py_int (drop 6 (resolve globals4 999))
      = (if int_max_str_digits < length (filter isdecimal (py_str 999)) then None else Some 999)"
    using c resolve_result [where g = globals4 and code = 999] by blast+
  moreover have "py_int (drop 6 (resolve globals4 999)) = Some 999"
    unfolding i s by (simp add: ascii_def char_eval int_max_str_digits_def)
  moreover have "resolve globals4 999 = weizhaodao @ ascii ''ID 999''"
    unfolding r s by (simp add: ascii_def)
  ultimately show ?thesis
    using a b c by simp
qed

section \<open>No table, no annotation\<close>

lemma load_no_files:
  "load_code_table no_files = Inr (no_globals, [Generic_file_not_found, Subway_file_not_found])"
  by (simp add: load_eval no_files_def parse_eval)

text \<open>
  Claim C8: when both lookup dictionaries are empty, a submitted text is not annotated:
  the handler returns the empty text with the message that the tables are not loaded,
  whatever the input, and no line gets a not-found comment.
\<close>

theorem index_refuses_without_tables:
  assumes "item_dict g = []" and "subway_item_dict g = []"
  shows "index g POST user_input = \<lparr>final_text = [], error_message = tables_not_loaded\<rparr>"
  using assms by (simp add: index_def)

theorem index_refuses_without_tables_witness:
  "load_code_table no_files = Inr (no_globals, [Generic_file_not_found, Subway_file_not_found])
   \<and> item_dict no_globals = [] \<and> subway_item_dict no_globals = []
   \<and> index no_globals POST scenario_input
       = \<lparr>final_text = [], error_message = tables_not_loaded\<rparr>
   \<and> tables_not_loaded \<noteq> []"
  using index_refuses_without_tables [of no_globals scenario_input] load_no_files
  by (simp add: no_globals_def tables_not_loaded_def)

section \<open>strip\<close>

lemma strip_Nil: "strip [] = []"
  by (simp add: strip_def lstrip_def rstrip_def)

lemma rstrip_split: "\<exists>ws. s = rstrip s @ ws \<and> list_all isspace ws"
proof -
  have "rev s = takeWhile isspace (rev s) @ dropWhile isspace (rev s)" by simp
  then have "s = rev (dropWhile isspace (rev s)) @ rev (takeWhile isspace (rev s))"
    by (metis rev_append rev_rev_ident)
  moreover have "list_all isspace (rev (takeWhile isspace (rev s)))"
    by (auto simp: list_all_iff dest: set_takeWhileD)
  ultimately show ?thesis unfolding rstrip_def by blast
qed

lemma rstrip_last: "rstrip s \<noteq> [] \<Longrightarrow> \<not> isspace (last (rstrip s))"
  unfolding rstrip_def by (simp add: last_rev hd_dropWhile)

lemma strip_edges:
  assumes "strip s \<noteq> []"
  shows "\<not> isspace (hd (strip s))" and "\<not> isspace (last (strip s))"
proof -
  from assms show "\<not> isspace (hd (strip s))"
    unfolding strip_def lstrip_def by (rule hd_dropWhile)
  from assms have n: "rstrip s \<noteq> []"
    unfolding strip_def lstrip_def by auto
  have "last (dropWhile isspace (rstrip s)) = last (rstrip s)"
    using assms unfolding strip_def lstrip_def
    by (metis append_Nil2 last_appendR takeWhile_dropWhile_id)
  with n show "\<not> isspace (last (strip s))"
    unfolding strip_def lstrip_def by (simp add: rstrip_last)
qed

lemma strip_id: "s \<noteq> [] \<Longrightarrow> \<not> isspace (hd s) \<Longrightarrow> \<not> isspace (last s) \<Longrightarrow> strip s = s"
  unfolding strip_def lstrip_def rstrip_def
  by (simp add: rev_dropWhile_last_id dropWhile_hd_id)

lemma strip_idem: "strip (strip s) = strip s"
  by (cases "strip s = []") (simp_all add: strip_Nil strip_id strip_edges)

lemma set_strip: "set (strip s) \<subseteq> set s"
proof -
  have "set (dropWhile isspace (rev s)) \<subseteq> set s"
    using set_dropWhileD by fastforce
  then show ?thesis
    unfolding strip_def lstrip_def rstrip_def using set_dropWhileD by fastforce
qed

lemma rstrip_append_spaces:
  assumes "list_all isspace ws"
  shows "rstrip (s @ ws) = rstrip s"
proof -
  have "dropWhile isspace (rev ws @ rev s) = dropWhile isspace (rev s)"
    by (rule dropWhile_append2) (use assms in \<open>auto simp: list_all_iff\<close>)
  then show ?thesis unfolding rstrip_def by simp
qed

lemma strip_append_spaces: "list_all isspace ws \<Longrightarrow> strip (s @ ws) = strip s"
  by (simp add: strip_def rstrip_append_spaces)

lemma rstrip_append_solid:
  assumes "a \<noteq> []" "\<not> isspace (last a)"
  shows "rstrip (a @ b) = a @ rstrip b"
proof (cases "list_all isspace b")
  case True
  then have "rstrip b = []"
    unfolding rstrip_def by (simp add: list_all_iff)
  moreover have "rstrip a = a"
    unfolding rstrip_def using assms by (rule rev_dropWhile_last_id)
  ultimately show ?thesis using True by (simp add: rstrip_append_spaces)
next
  case False
  then obtain x where "x \<in> set (rev b)" "\<not> isspace x"
    by (auto simp: list_all_iff)
  then have "dropWhile isspace (rev b @ rev a) = dropWhile isspace (rev b) @ rev a"
    by (rule dropWhile_append1)
  then show ?thesis unfolding rstrip_def by simp
qed

lemma strip_append_solid:
  assumes "a \<noteq> []" "\<not> isspace (hd a)" "\<not> isspace (last a)"
  shows "strip (a @ b) = a @ rstrip b"
proof -
  have "dropWhile isspace (a @ rstrip b) = a @ rstrip b"
    using assms by (intro dropWhile_hd_id) auto
  then show ?thesis
    unfolding strip_def lstrip_def using assms by (simp add: rstrip_append_solid)
qed

lemma strip_append_prefix:
  assumes "strip p \<noteq> []"
  shows "\<exists>u. strip (p @ t) = strip p @ u"
proof -
  obtain ws where ws: "p = rstrip p @ ws" "list_all isspace ws"
    using rstrip_split by blast
  let ?a = "takeWhile isspace (rstrip p)"
  have r: "rstrip p = ?a @ strip p"
    unfolding strip_def lstrip_def by simp
  have e: "\<not> isspace (hd (strip p))" "\<not> isspace (last (strip p))"
    using assms by (rule strip_edges)+
  have pt: "p @ t = ?a @ (strip p @ (ws @ t))"
    using ws(1) r by (metis append_assoc)
  have "strip (p @ t) = lstrip (rstrip (p @ t))"
    by (simp add: strip_def)
  also have "rstrip (p @ t) = rstrip (?a @ (strip p @ (ws @ t)))"
    by (subst pt) (rule refl)
  also have "rstrip (?a @ (strip p @ (ws @ t))) = (?a @ strip p) @ rstrip (ws @ t)"
    using assms e(2) rstrip_append_solid [of "?a @ strip p" "ws @ t"] by simp
  also have "lstrip ((?a @ strip p) @ rstrip (ws @ t)) = strip p @ rstrip (ws @ t)"
  proof -
    have "dropWhile isspace (?a @ (strip p @ rstrip (ws @ t)))
        = dropWhile isspace (strip p @ rstrip (ws @ t))"
      by (rule dropWhile_append2) (auto dest: set_takeWhileD)
    also have "\<dots> = strip p @ rstrip (ws @ t)"
      using assms e(1) by (intro dropWhile_hd_id) auto
    finally show ?thesis unfolding lstrip_def by simp
  qed
  finally show ?thesis by blast
qed

section \<open>Trailing text after a subway record\<close>

lemma literal_append: "literal l s = Some r \<Longrightarrow> literal l (s @ t) = Some (r @ t)"
  by (auto simp: literal_def prefix_def split: if_splits)

lemma literal_nonempty: "literal l s = Some r \<Longrightarrow> l \<noteq> [] \<Longrightarrow> s \<noteq> []"
  by (auto simp: literal_def split: if_splits)

lemma many1_append:
  assumes "many1 p s = Some (d, r)" and "r \<noteq> []"
  shows "many1 p (s @ t) = Some (d, r @ t)"
proof -
  from assms have d: "d = takeWhile p s" "r = dropWhile p s" "d \<noteq> []"
    by (auto simp: many1_def split: if_splits)
  with assms(2) obtain x where x: "x \<in> set s" "\<not> p x"
    by (metis dropWhile_eq_Nil_conv)
  then have "takeWhile p (s @ t) = takeWhile p s" "dropWhile p (s @ t) = dropWhile p s @ t"
    by (simp_all add: takeWhile_append1 dropWhile_append1)
  with d show ?thesis by (simp add: many1_def)
qed

lemma subway_pattern_match_append:
  assumes "subway_pattern_match s = Some gs"
  shows "subway_pattern_match (s @ t) = Some gs"
proof -
  from assms obtain r1 g1 r2 r3 d r4 r5 g2 r6 r7 h r8 r9 where
    m: "literal (ascii ''{'') s = Some r1" "many1 isdecimal r1 = Some (g1, r2)"
       "literal (ascii ''}--{'') r2 = Some r3" "many1 isdecimal r3 = Some (d, r4)"
       "literal (ascii ''}--['') r4 = Some r5" "many1 not_rbracket r5 = Some (g2, r6)"
       "literal (ascii '']--[0x'') r6 = Some r7" "many1 ishex r7 = Some (h, r8)"
       "literal (ascii '']'') r8 = Some r9"
    and gs: "gs = (g1, g2, ascii ''0x'' @ h)"
    unfolding subway_pattern_match_def
    by (auto simp: bind_eq_Some_conv)
  have ne: "r2 \<noteq> []" "r4 \<noteq> []" "r6 \<noteq> []" "r8 \<noteq> []"
    using m(3,5,7,9) by (auto dest!: literal_nonempty simp: ascii_def)
  have "literal (ascii ''{'') (s @ t) = Some (r1 @ t)"
    using m(1) by (rule literal_append)
  moreover have "many1 isdecimal (r1 @ t) = Some (g1, r2 @ t)"
    using m(2) ne(1) by (rule many1_append)
  moreover have "literal (ascii ''}--{'') (r2 @ t) = Some (r3 @ t)"
    using m(3) by (rule literal_append)
  moreover have "many1 isdecimal (r3 @ t) = Some (d, r4 @ t)"
    using m(4) ne(2) by (rule many1_append)
  moreover have "literal (ascii ''}--['') (r4 @ t) = Some (r5 @ t)"
    using m(5) by (rule literal_append)
  moreover have "many1 not_rbracket (r5 @ t) = Some (g2, r6 @ t)"
    using m(6) ne(3) by (rule many1_append)
  moreover have "literal (ascii '']--[0x'') (r6 @ t) = Some (r7 @ t)"
    using m(7) by (rule literal_append)
  moreover have "many1 ishex (r7 @ t) = Some (h, r8 @ t)"
    using m(8) ne(4) by (rule many1_append)
  moreover have "literal (ascii '']'') (r8 @ t) = Some (r9 @ t)"
    using m(9) by (rule literal_append)
  ultimately show ?thesis
    unfolding subway_pattern_match_def gs by simp
qed

lemma subway_pattern_match_nonempty: "subway_pattern_match s = Some gs \<Longrightarrow> s \<noteq> []"
  unfolding subway_pattern_match_def
  by (auto simp: bind_eq_Some_conv ascii_def dest!: literal_nonempty)

lemma many1_decimal: "many1 isdecimal s = Some (d, r) \<Longrightarrow> d \<noteq> [] \<and> list_all isdecimal d"
  by (auto simp: many1_def list_all_iff split: if_splits dest: set_takeWhileD)

lemma subway_pattern_match_id:
  assumes "subway_pattern_match s = Some (g1, g2, g3)"
  shows "py_int g1
           = (if length g1 \<le> int_max_str_digits then Some (int (digits_value g1)) else None)"
proof -
  from assms obtain r1 r2 where "many1 isdecimal r1 = Some (g1, r2)"
    unfolding subway_pattern_match_def by (auto simp: bind_eq_Some_conv)
  then have "g1 \<noteq> []" "list_all isdecimal g1"
    by (auto dest: many1_decimal)
  then show ?thesis
    by (simp add: py_int_all py_int_long)
qed

text \<open>
  Claim C9: a line that starts with a match of the subway pattern is taken as a record
  whatever follows the match. If the pattern matches the stripped line \<open>p\<close> with the
  groups \<open>g1\<close>, \<open>g2\<close> and \<open>g3\<close>, and \<^verbatim>\<open>int\<close> reads \<open>g1\<close> as \<open>item_id\<close> (as it does
  every \<open>g1\<close> of at most 4300 digits, lemma \<open>subway_pattern_match_id\<close>), then for every text \<open>t\<close> the
  line \<open>p @ t\<close> stores the record of \<open>g2\<close> and \<open>g3\<close> under \<open>item_id\<close>, as \<open>p\<close> does, and
  leaves the log as it was: the line is neither skipped nor warned about.
\<close>

theorem subway_line_trailing_text:
  assumes "subway_pattern_match (strip p) = Some (g1, g2, g3)"
    and "py_int g1 = Some item_id"
  shows "subway_line (p @ t) acc
           = (AList.update item_id \<lparr>subway_name = g2, hex_code = g3\<rparr> (fst acc), snd acc)
         \<and> subway_line (p @ t) acc = subway_line p acc"
proof -
  have ne: "strip p \<noteq> []"
    using assms(1) by (rule subway_pattern_match_nonempty)
  then obtain u where u: "strip (p @ t) = strip p @ u"
    using strip_append_prefix by blast
  have m: "subway_pattern_match (strip (p @ t)) = Some (g1, g2, g3)"
    unfolding u using assms(1) by (rule subway_pattern_match_append)
  note i = assms(2)
  have "strip (p @ t) \<noteq> []"
    using ne u by simp
  with m i have "subway_line (p @ t) acc
      = (AList.update item_id \<lparr>subway_name = g2, hex_code = g3\<rparr> (fst acc),
         snd acc)"
    by (simp add: subway_line_def)
  moreover from ne assms(1) i have "subway_line p acc
      = (AList.update item_id \<lparr>subway_name = g2, hex_code = g3\<rparr> (fst acc),
         snd acc)"
    by (simp add: subway_line_def)
  ultimately show ?thesis by simp
qed


theorem subway_line_trailing_text_witness:
  "subway_pattern_match (strip (ascii ''{501}--{0}--['' @ jinse_tuzhuang @ ascii '']--[0xFFD700]''))
     = Some (ascii ''501'', jinse_tuzhuang, ascii ''0xFFD700'')
   \<and> py_int (ascii ''501'') = Some 501
   \<and> subway_line
        ((ascii ''{501}--{0}--['' @ jinse_tuzhuang @ ascii '']--[0xFFD700]'') @ ascii '', // gold'')
        ([], [])
      = (subway_501, [])"
proof -
  have h: "subway_pattern_match
      (strip (ascii ''{501}--{0}--['' @ jinse_tuzhuang @ ascii '']--[0xFFD700]''))
     = Some (ascii ''501'', jinse_tuzhuang, ascii ''0xFFD700'')"
    by (simp add: subway_pattern_match_def not_rbracket_def ishex_def str_eval char_eval
        word_eval)
  have i: "py_int (ascii ''501'') = Some 501"
    by (simp add: str_eval char_eval)
  note t = subway_line_trailing_text [OF h i, of "ascii '', // gold''" "([], [])"]
  show ?thesis
    using h i t [THEN conjunct1] by (simp add: subway_501_def)
qed

section \<open>The classification of a generic line\<close>

lemma classify_spec: "classify nm = part_tag (spec_part_type nm)"
  by (simp add: classify_def spec_part_type_def keyword_classes_def)

lemma part_tag_main: "part_tag pt = zhujian \<longleftrightarrow> pt = MainWeapon"
  by (cases pt) (simp_all add: word_eval)

lemma map_of_update_other: "k \<noteq> k' \<Longrightarrow> map_of (AList.update k' v d) k = map_of d k"
  by (simp add: update_conv')

lemma map_of_update_same: "map_of (AList.update k v d) k = Some v"
  by (simp add: update_conv')

text \<open>
  Claim C3: for a line of the generic table that splits on \<^verbatim>\<open>" -- "\<close> into at least four
  fields, the first two of which \<^verbatim>\<open>int\<close> reads as \<open>id1\<close> and \<open>id2\<close>, the parser stores
  under the key \<open>id2\<close> (and under no other key, \<open>id1\<close> included) the record of the third
  field as name, with the part type that the first matching keyword class gives in the
  order magazine, muzzle, grip, sight, and a main weapon when none matches; the parent
  is \<open>id1\<close> exactly when the part is not a main weapon. A main weapon is entered in
  \<open>main_weapons\<close>, any other part in \<open>sub_to_main\<close>, and nothing is logged.
\<close>

theorem generic_line_classifies:
  assumes "parts = map strip (split_str (ascii '' -- '') (strip raw))"
    and "4 \<le> length parts"
    and "py_int (parts ! 0) = Some id1"
    and "py_int (parts ! 1) = Some id2"
    and "r = generic_line raw (t, lg)"
  shows "map_of (parsed_items (fst r)) id2
           = Some \<lparr>name = parts ! 2, type_hint = part_tag (spec_part_type (parts ! 2)),
                   parent = (if spec_part_type (parts ! 2) = MainWeapon then None else Some id1)\<rparr>
         \<and> (\<forall>k. k \<noteq> id2 \<longrightarrow> map_of (parsed_items (fst r)) k = map_of (parsed_items t) k)
         \<and> (spec_part_type (parts ! 2) = MainWeapon \<longrightarrow>
              map_of (main_weapons (fst r)) id2 = Some (parts ! 2)
              \<and> sub_to_main (fst r) = sub_to_main t)
         \<and> (spec_part_type (parts ! 2) \<noteq> MainWeapon \<longrightarrow>
              map_of (sub_to_main (fst r)) id2 = Some id1
              \<and> main_weapons (fst r) = main_weapons t)
         \<and> snd r = lg"
proof -
  have "strip raw \<noteq> []"
    using assms(1,2) by auto
  with assms have r: "r = (store_item id1 id2 (parts ! 2) t, lg)"
    by (simp add: generic_line_def Let_def)
  show ?thesis
    unfolding r
    by (simp add: store_item_def Let_def classify_spec part_tag_main map_of_update_same
        map_of_update_other)
qed


text \<open>
  The witness is a line whose name holds the muzzle word before the magazine word: the
  magazine class comes first in the order, so the part is a magazine.
\<close>

theorem generic_line_classifies_witness:
  "map strip (split_str (ascii '' -- '')
       (strip (ascii ''101 -- 201 -- '' @ qiangkou @ danxia @ ascii '' -- x'' @ [0x0A])))
     = [ascii ''101'', ascii ''201'', qiangkou @ danxia, ascii ''x'']
   \<and> py_int (ascii ''101'') = Some 101
   \<and> py_int (ascii ''201'') = Some 201
   \<and> spec_part_type (qiangkou @ danxia) = Magazine
   \<and> map_of (parsed_items (fst (generic_line
          (ascii ''101 -- 201 -- '' @ qiangkou @ danxia @ ascii '' -- x'' @ [0x0A])
          (no_tables, [])))) 201
       = Some \<lparr>name = qiangkou @ danxia, type_hint = danxia, parent = Some 101\<rparr>
   \<and> map_of (parsed_items (fst (generic_line
          (ascii ''101 -- 201 -- '' @ qiangkou @ danxia @ ascii '' -- x'' @ [0x0A])
          (no_tables, [])))) 101
       = None
   \<and> map_of (sub_to_main (fst (generic_line
          (ascii ''101 -- 201 -- '' @ qiangkou @ danxia @ ascii '' -- x'' @ [0x0A])
          (no_tables, [])))) 201
       = Some 101"
proof -
  let ?raw = "ascii ''101 -- 201 -- '' @ qiangkou @ danxia @ ascii '' -- x'' @ [0x0A]"
  let ?parts = "[ascii ''101'', ascii ''201'', qiangkou @ danxia, ascii ''x'']"
  have p: "?parts = map strip (split_str (ascii '' -- '') (strip ?raw))"
    by (simp add: str_eval char_eval word_eval)
  have l: "4 \<le> length ?parts"
    by simp
  have i: "py_int (?parts ! 0) = Some 101" "py_int (?parts ! 1) = Some 201"
    by (simp_all add: str_eval char_eval)
  have s: "spec_part_type (qiangkou @ danxia) = Magazine"
    by (simp add: spec_part_type_def keyword_classes_def word_eval)
  show ?thesis
    using generic_line_classifies [OF p l i refl, of no_tables "[]"] p [symmetric] i s
    by (simp add: no_tables_def)
qed

section \<open>The leading run of IDs\<close>

lemma takeWhile_all_append: "list_all P a \<Longrightarrow> takeWhile P (a @ b) = a @ takeWhile P b"
  by (simp add: list_all_iff)

lemma dropWhile_all_append: "list_all P a \<Longrightarrow> dropWhile P (a @ b) = dropWhile P b"
  by (simp add: list_all_iff)

lemma takeWhile_stop: "no_digit_head r \<Longrightarrow> takeWhile isdecimal r = []"
  by (cases r) (simp_all add: no_digit_head_def)

lemma dropWhile_stop: "no_digit_head r \<Longrightarrow> dropWhile isdecimal r = r"
  by (cases r) (simp_all add: no_digit_head_def)

lemma no_digit_head_dropWhile: "no_digit_head (dropWhile isdecimal s)"
  by (induction s) (simp_all add: no_digit_head_def)

lemma many1_digits:
  assumes "d \<noteq> []" "list_all isdecimal d" "no_digit_head r"
  shows "many1 isdecimal (d @ r) = Some (d, r)"
  using assms
  by (simp add: many1_def takeWhile_all_append dropWhile_all_append takeWhile_stop
      dropWhile_stop)

lemma many1_digits_conv:
  assumes "many1 isdecimal s = Some (d, r)"
  shows "s = d @ r \<and> d \<noteq> [] \<and> list_all isdecimal d \<and> no_digit_head r"
  using assms
  by (auto simp: many1_def list_all_iff no_digit_head_dropWhile split: if_splits
      dest: set_takeWhileD)

lemma literal_comma_conv: "literal (ascii '','') s = Some r \<longleftrightarrow> s = 0x2C # r"
  by (cases s) (auto simp: literal_def ascii_def)

lemma literal_comma_Cons: "literal (ascii '','') (c # r) = (if c = 0x2C then Some r else None)"
  by (simp add: literal_def ascii_def)

lemma digits_start_solid:
  assumes "d \<noteq> []" "list_all isdecimal d"
  shows "dropWhile isspace (d @ r) = d @ r" and "takeWhile isspace (d @ r) = []"
proof -
  from assms have "\<not> isspace (hd (d @ r))"
    by (cases d) (auto dest: isspace_not_decimal)
  with assms(1) show "dropWhile isspace (d @ r) = d @ r" "takeWhile isspace (d @ r) = []"
    by (cases d; simp)+
qed

lemma more_ids_stop: "literal (ascii '','') (dropWhile isspace s) = None \<Longrightarrow> more_ids s = []"
  by (subst more_ids.simps) simp

lemma more_ids_Nil: "more_ids [] = []"
  by (rule more_ids_stop) (simp add: literal_def ascii_def)

lemma more_ids_step:
  assumes "list_all isspace w1" "list_all isspace w2" "d \<noteq> []" "list_all isdecimal d"
    and "no_digit_head r"
  shows "more_ids (w1 @ 0x2C # w2 @ d @ r) = w1 @ 0x2C # w2 @ d @ more_ids r"
proof -
  have c: "\<not> isspace 0x2C"
    by (simp add: isspace_low)
  have 1: "dropWhile isspace (w1 @ 0x2C # w2 @ d @ r) = 0x2C # w2 @ d @ r"
    "takeWhile isspace (w1 @ 0x2C # w2 @ d @ r) = w1"
    using assms(1) c by (simp_all add: dropWhile_all_append takeWhile_all_append)
  have 2: "dropWhile isspace (w2 @ d @ r) = d @ r" "takeWhile isspace (w2 @ d @ r) = w2"
    using assms(2-4)
    by (simp_all add: dropWhile_all_append takeWhile_all_append digits_start_solid)
  have 3: "many1 isdecimal (d @ r) = Some (d, r)"
    using assms(3-5) by (rule many1_digits)
  show ?thesis
    by (subst more_ids.simps) (simp add: 1 2 3 literal_comma_Cons, simp add: ascii_def)
qed

text \<open>One turn of the repeated group, read off the definition.\<close>

lemma more_ids_cases:
  "more_ids s = []
   \<or> (\<exists>w1 w2 d r. list_all isspace w1 \<and> list_all isspace w2 \<and> d \<noteq> []
        \<and> list_all isdecimal d \<and> no_digit_head r \<and> s = w1 @ 0x2C # w2 @ d @ r
        \<and> more_ids s = w1 @ 0x2C # w2 @ d @ more_ids r)"
proof (cases "literal (ascii '','') (dropWhile isspace s)")
  case None
  then show ?thesis by (simp add: more_ids_stop)
next
  case (Some r1)
  then have s1: "dropWhile isspace s = 0x2C # r1"
    by (simp add: literal_comma_conv)
  show ?thesis
  proof (cases "many1 isdecimal (dropWhile isspace r1)")
    case None
    with Some have "more_ids s = []"
      by (subst more_ids.simps) simp
    then show ?thesis by simp
  next
    case (Some dr)
    obtain d r where dr: "dr = (d, r)" by (cases dr)
    with Some have m: "dropWhile isspace r1 = d @ r" "d \<noteq> []" "list_all isdecimal d"
      "no_digit_head r"
      using many1_digits_conv by blast+
    let ?w1 = "takeWhile isspace s" and ?w2 = "takeWhile isspace r1"
    have w: "list_all isspace ?w1" "list_all isspace ?w2"
      by (auto simp: list_all_iff dest: set_takeWhileD)
    have "s = ?w1 @ dropWhile isspace s" "r1 = ?w2 @ dropWhile isspace r1"
      by simp_all
    with s1 m(1) have s: "s = ?w1 @ 0x2C # ?w2 @ d @ r"
      by metis
    have "more_ids (?w1 @ 0x2C # ?w2 @ d @ r) = ?w1 @ 0x2C # ?w2 @ d @ more_ids r"
      using w m(2-4) by (rule more_ids_step)
    with s have "more_ids s = ?w1 @ 0x2C # ?w2 @ d @ more_ids r"
      by simp
    with s w m(2-4) show ?thesis by blast
  qed
qed

lemma more_ids_head: "no_digit_head (more_ids s)"
proof -
  have c: "\<not> isdecimal 0x2C"
    by (simp add: isdecimal_low)
  from more_ids_cases [of s] show ?thesis
  proof
    assume "more_ids s = []"
    then show ?thesis by (simp add: no_digit_head_def)
  next
    assume "\<exists>w1 w2 d r. list_all isspace w1 \<and> list_all isspace w2 \<and> d \<noteq> []
        \<and> list_all isdecimal d \<and> no_digit_head r \<and> s = w1 @ 0x2C # w2 @ d @ r
        \<and> more_ids s = w1 @ 0x2C # w2 @ d @ more_ids r"
    then obtain w1 x where "list_all isspace w1" "more_ids s = w1 @ 0x2C # x"
      by blast
    with c show ?thesis
      by (cases w1) (auto simp: no_digit_head_def dest: isspace_not_decimal)
  qed
qed

lemma more_ids_props:
  "more_ids (more_ids s) = more_ids s
   \<and> (\<exists>u. s = more_ids s @ u)
   \<and> (more_ids s \<noteq> [] \<longrightarrow> isdecimal (last (more_ids s)))"
proof (induction s rule: length_induct)
  case (1 s)
  from more_ids_cases [of s] show ?case
  proof
    assume "more_ids s = []"
    then show ?thesis by (simp add: more_ids_Nil)
  next
    assume "\<exists>w1 w2 d r. list_all isspace w1 \<and> list_all isspace w2 \<and> d \<noteq> []
        \<and> list_all isdecimal d \<and> no_digit_head r \<and> s = w1 @ 0x2C # w2 @ d @ r
        \<and> more_ids s = w1 @ 0x2C # w2 @ d @ more_ids r"
    then obtain w1 w2 d r where w: "list_all isspace w1" "list_all isspace w2"
      and d: "d \<noteq> []" "list_all isdecimal d" and r: "no_digit_head r"
      and s: "s = w1 @ 0x2C # w2 @ d @ r"
      and m: "more_ids s = w1 @ 0x2C # w2 @ d @ more_ids r"
      by blast
    have "length r < length s"
      using s by simp
    with 1 have ih: "more_ids (more_ids r) = more_ids r" "\<exists>u. r = more_ids r @ u"
      "more_ids r \<noteq> [] \<longrightarrow> isdecimal (last (more_ids r))"
      by blast+
    have "more_ids (w1 @ 0x2C # w2 @ d @ more_ids r)
        = w1 @ 0x2C # w2 @ d @ more_ids (more_ids r)"
      using w d more_ids_head by (rule more_ids_step)
    with m ih(1) have 1: "more_ids (more_ids s) = more_ids s"
      by simp
    from ih(2) obtain u where "r = more_ids r @ u" by blast
    with s m have 2: "s = more_ids s @ u"
      by simp
    have "isdecimal (last d)"
      using d by (auto simp: list_all_iff)
    with m d ih(3) have 3: "isdecimal (last (more_ids s))"
      by (cases "more_ids r = []") simp_all
    from 1 2 3 show ?thesis by blast
  qed
qed

text \<open>What a match of the pattern tells about the line and about the run itself.\<close>

lemma id_match_conv:
  assumes "id_match s = Some m"
  shows "\<exists>d r. dropWhile isspace s = d @ r \<and> d \<noteq> [] \<and> list_all isdecimal d
           \<and> no_digit_head r \<and> m = d @ more_ids r"
proof -
  from assms obtain d r where "many1 isdecimal (dropWhile isspace s) = Some (d, r)"
    and m: "m = d @ more_ids r"
    by (auto simp: id_match_def split: option.splits)
  with many1_digits_conv show ?thesis by blast
qed

lemma id_match_run:
  assumes "d \<noteq> []" "list_all isdecimal d" "no_digit_head r"
  shows "id_match (d @ r) = Some (d @ more_ids r)"
  using assms by (simp add: id_match_def digits_start_solid many1_digits)

lemma id_match_props:
  assumes "id_match s = Some m"
  shows "m \<noteq> []" and "isdecimal (hd m)" and "isdecimal (last m)"
    and "id_match m = Some m" and "\<exists>u. dropWhile isspace s = m @ u"
proof -
  from id_match_conv [OF assms] obtain d r where
    s: "dropWhile isspace s = d @ r" and d: "d \<noteq> []" "list_all isdecimal d"
    and r: "no_digit_head r" and m: "m = d @ more_ids r"
    by blast
  show "m \<noteq> []"
    using d m by simp
  show "isdecimal (hd m)"
    using d m by (cases d) auto
  have "isdecimal (last d)"
    using d by (auto simp: list_all_iff)
  then show "isdecimal (last m)"
    using d m more_ids_props [of r] by (cases "more_ids r = []") simp_all
  have "id_match (d @ more_ids r) = Some (d @ more_ids (more_ids r))"
    using d more_ids_head by (rule id_match_run)
  then show "id_match m = Some m"
    using m more_ids_props [of r] by simp
  from more_ids_props [of r] obtain u where "r = more_ids r @ u"
    by blast
  with s m have "dropWhile isspace s = m @ u"
    by simp
  then show "\<exists>u. dropWhile isspace s = m @ u" ..
qed

lemma id_match_None:
  assumes "s \<noteq> []" "\<not> isdecimal (hd s)" "\<not> isspace (hd s)"
  shows "id_match s = None"
  using assms by (cases s) (simp_all add: id_match_def many1_def)

section \<open>The numbers of a run\<close>

lemma findall_digits_Nil: "findall_digits [] = []"
  by (subst findall_digits.simps) simp

lemma findall_digits_run:
  assumes "d \<noteq> []" "list_all isdecimal d" "no_digit_head r"
  shows "findall_digits (d @ r) = d # findall_digits r"
proof -
  obtain c cs where d: "d = c # cs" using assms(1) by (cases d) auto
  with assms(2) have c: "isdecimal c" "list_all isdecimal cs" by simp_all
  have "dropWhile (\<lambda>c. \<not> isdecimal c) (d @ r) = c # cs @ r"
    using d c by simp
  moreover have "takeWhile isdecimal (cs @ r) = cs" "dropWhile isdecimal (cs @ r) = r"
    using c(2) assms(3)
    by (simp_all add: takeWhile_all_append dropWhile_all_append takeWhile_stop dropWhile_stop)
  ultimately show ?thesis
    by (subst findall_digits.simps) (simp add: d)
qed

lemma findall_digits_skip:
  assumes "list_all (\<lambda>c. \<not> isdecimal c) w"
  shows "findall_digits (w @ s) = findall_digits s"
proof -
  have "dropWhile (\<lambda>c. \<not> isdecimal c) (w @ s) = dropWhile (\<lambda>c. \<not> isdecimal c) s"
    using assms by (rule dropWhile_all_append)
  then show ?thesis
    by (subst findall_digits.simps, subst (2) findall_digits.simps) simp
qed

lemma findall_digits_digits:
  "x \<in> set (findall_digits s) \<Longrightarrow> x \<noteq> [] \<and> list_all isdecimal x"
proof (induction s arbitrary: x rule: findall_digits.induct)
  case (1 s)
  show ?case
  proof (cases "dropWhile (\<lambda>c. \<not> isdecimal c) s")
    case Nil
    with "1.prems" show ?thesis
      by (subst (asm) findall_digits.simps) simp
  next
    case (Cons c r)
    then have c: "isdecimal c"
      using hd_dropWhile [of "\<lambda>c. \<not> isdecimal c" s] by simp
    from Cons "1.prems" have "x = c # takeWhile isdecimal r
        \<or> x \<in> set (findall_digits (dropWhile isdecimal r))"
      by (subst (asm) findall_digits.simps) simp
    then show ?thesis
    proof
      assume "x = c # takeWhile isdecimal r"
      with c show ?thesis
        by (auto simp: list_all_iff dest: set_takeWhileD)
    next
      assume "x \<in> set (findall_digits (dropWhile isdecimal r))"
      with Cons show ?thesis by (rule "1.IH")
    qed
  qed
qed

lemma those_py_int:
  assumes "\<And>x. x \<in> set xs \<Longrightarrow> x \<noteq> [] \<and> list_all isdecimal x"
    and "list_all (\<lambda>d. length d \<le> int_max_str_digits) xs"
  shows "those (map py_int xs) = Some (map (\<lambda>x. int (digits_value x)) xs)"
  using assms by (induction xs) (simp_all add: py_int_all)

lemma those_py_int_long:
  assumes "\<And>x. x \<in> set xs \<Longrightarrow> x \<noteq> [] \<and> list_all isdecimal x"
    and "\<not> list_all (\<lambda>d. length d \<le> int_max_str_digits) xs"
  shows "those (map py_int xs) = None"
  using assms
proof (induction xs)
  case Nil
  then show ?case by simp
next
  case (Cons x xs)
  show ?case
  proof (cases "length x \<le> int_max_str_digits")
    case True
    with Cons.prems(2) have "\<not> list_all (\<lambda>d. length d \<le> int_max_str_digits) xs"
      by simp
    then have "those (map py_int xs) = None"
      using Cons.prems(1) by (intro Cons.IH) simp_all
    then show ?thesis
      by (simp split: option.splits)
  next
    case False
    then have "py_int x = None"
      using Cons.prems(1) [of x] by (intro py_int_long) simp_all
    then show ?thesis
      by simp
  qed
qed

text \<open>
  The numbers of a run: \<^verbatim>\<open>int\<close> reads them all when none has more digits than the
  limit, and raises \<^verbatim>\<open>ValueError\<close> otherwise.
\<close>

lemma run_numbers:
  "list_all (\<lambda>d. length d \<le> int_max_str_digits) (findall_digits m) \<Longrightarrow>
   those (map py_int (findall_digits m))
     = Some (map (\<lambda>x. int (digits_value x)) (findall_digits m))"
  by (rule those_py_int) (rule findall_digits_digits)

lemma run_numbers_long:
  "\<not> list_all (\<lambda>d. length d \<le> int_max_str_digits) (findall_digits m) \<Longrightarrow>
   those (map py_int (findall_digits m)) = None"
  by (rule those_py_int_long) (rule findall_digits_digits)

lemma findall_digits_nonempty:
  assumes "m \<noteq> []" "isdecimal (hd m)"
  shows "findall_digits m \<noteq> []"
proof -
  obtain c cs where "m = c # cs" using assms(1) by (cases m) auto
  with assms(2) show ?thesis
    by (subst findall_digits.simps) simp
qed

section \<open>The rendered line\<close>

text \<open>The canonical ID portion of an output line, for the numbers of a run.\<close>

lemma py_str_nat: "py_str (int n) = digits_of n"
  by (simp add: py_str_def)

lemma id_string_Cons:
  "id_string (n # ns) = digits_of n @ concat (map (\<lambda>k. ascii '', '' @ digits_of k) ns)"
  unfolding id_string_def
  by (induction ns arbitrary: n) (simp_all add: py_str_nat)

lemma sep_digits_head:
  assumes "no_digit_head r"
  shows "no_digit_head (concat (map (\<lambda>k. ascii '', '' @ digits_of k) ns) @ r)"
  using assms by (cases ns) (simp_all add: no_digit_head_def ascii_def isdecimal_low)

lemma more_ids_rendered:
  assumes "no_digit_head r"
  shows "more_ids (concat (map (\<lambda>k. ascii '', '' @ digits_of k) ns) @ r)
           = concat (map (\<lambda>k. ascii '', '' @ digits_of k) ns) @ more_ids r"
proof (induction ns)
  case Nil
  show ?case by simp
next
  case (Cons n ns)
  let ?rest = "concat (map (\<lambda>k. ascii '', '' @ digits_of k) ns) @ r"
  have "more_ids ([] @ 0x2C # [0x20] @ digits_of n @ ?rest)
      = [] @ 0x2C # [0x20] @ digits_of n @ more_ids ?rest"
    using assms
    by (intro more_ids_step) (simp_all add: isspace_low digits_of_nonempty digits_of_decimal
        sep_digits_head)
  with Cons show ?case
    by (simp add: ascii_def)
qed

lemma id_match_rendered:
  assumes "ns \<noteq> []" "no_digit_head r" "more_ids r = []"
  shows "id_match (id_string ns @ r) = Some (id_string ns)"
proof -
  obtain n ns' where ns: "ns = n # ns'" using assms(1) by (cases ns) auto
  let ?tail = "concat (map (\<lambda>k. ascii '', '' @ digits_of k) ns')"
  have "id_match (digits_of n @ (?tail @ r)) = Some (digits_of n @ more_ids (?tail @ r))"
    using assms(2)
    by (intro id_match_run) (simp_all add: digits_of_nonempty digits_of_decimal sep_digits_head)
  then show ?thesis
    using assms(2,3) by (simp add: ns id_string_Cons more_ids_rendered)
qed

lemma findall_digits_rendered: "findall_digits (id_string ns) = map digits_of ns"
proof (cases ns)
  case Nil
  then show ?thesis by (simp add: id_string_def findall_digits_Nil)
next
  case (Cons n ns')
  have sep: "list_all (\<lambda>c. \<not> isdecimal c) (ascii '', '')"
    by (simp add: ascii_def isdecimal_low)
  have "findall_digits (concat (map (\<lambda>k. ascii '', '' @ digits_of k) ks)) = map digits_of ks"
    for ks
  proof (induction ks)
    case Nil
    show ?case by (simp add: findall_digits_Nil)
  next
    case (Cons k ks)
    let ?tail = "concat (map (\<lambda>k. ascii '', '' @ digits_of k) ks)"
    have "findall_digits (ascii '', '' @ (digits_of k @ ?tail))
        = findall_digits (digits_of k @ ?tail)"
      using sep by (rule findall_digits_skip)
    also have "\<dots> = digits_of k # findall_digits ?tail"
      using sep_digits_head [of "[]" ks]
      by (intro findall_digits_run) (simp_all add: digits_of_nonempty digits_of_decimal
          no_digit_head_def)
    finally show ?case using Cons by simp
  qed
  moreover have "findall_digits (digits_of n @ concat (map (\<lambda>k. ascii '', '' @ digits_of k) ns'))
      = digits_of n # findall_digits (concat (map (\<lambda>k. ascii '', '' @ digits_of k) ns'))"
    using sep_digits_head [of "[]" ns']
    by (intro findall_digits_run) (simp_all add: digits_of_nonempty digits_of_decimal
        no_digit_head_def)
  ultimately show ?thesis
    by (simp add: Cons id_string_Cons)
qed

lemma id_string_edges:
  assumes "ns \<noteq> []"
  shows "id_string ns \<noteq> []" and "isdecimal (hd (id_string ns))"
    and "isdecimal (last (id_string ns))"
proof -
  have m: "id_match (id_string ns @ []) = Some (id_string ns)"
    using assms by (intro id_match_rendered) (simp_all add: no_digit_head_def more_ids_Nil)
  then show "id_string ns \<noteq> []" "isdecimal (hd (id_string ns))"
    "isdecimal (last (id_string ns))"
    using id_match_props(1-3) by blast+
qed

section \<open>annotate\_line\<close>

lemma id_match_Nil: "id_match [] = None"
  by (simp add: id_match_def many1_def)

lemma annotate_line_blank: "strip line = [] \<Longrightarrow> annotate_line g line = []"
  by (simp add: annotate_line_def)

lemma annotate_line_no_match:
  "id_match (strip line) = None \<Longrightarrow> annotate_line g line = strip line"
  by (simp add: annotate_line_def Let_def)

lemma annotate_line_long:
  assumes "id_match (strip line) = Some m"
    and "\<not> list_all (\<lambda>d. length d \<le> int_max_str_digits) (findall_digits m)"
  shows "annotate_line g line = strip line"
  using assms by (simp add: annotate_line_def run_numbers_long Let_def)

lemma id_match_findall: "id_match s = Some m \<Longrightarrow> findall_digits m \<noteq> []"
  using id_match_props(1,2) by (rule findall_digits_nonempty)

lemma annotate_line_match:
  assumes "id_match (strip line) = Some m"
    and "list_all (\<lambda>d. length d \<le> int_max_str_digits) (findall_digits m)"
  shows "annotate_line g line = render g (map digits_value (findall_digits m))"
proof -
  have s: "strip line \<noteq> []"
    using assms id_match_Nil by auto
  have n: "findall_digits m \<noteq> []"
    using assms(1) by (rule id_match_findall)
  have "map py_str (map (\<lambda>x. int (digits_value x)) (findall_digits m))
      = map (\<lambda>n. py_str (int n)) (map digits_value (findall_digits m))"
    by simp
  moreover have "map (\<lambda>x. int (digits_value x)) (findall_digits m)
      = map int (map digits_value (findall_digits m))"
    by simp
  ultimately show "annotate_line g line = render g (map digits_value (findall_digits m))"
    using s n assms(1)
    by (simp add: annotate_line_def run_numbers [OF assms(2)] render_def id_string_def Let_def
        del: map_map)
qed

lemma more_ids_hash: "more_ids (ascii '' #'' @ x) = []"
  by (rule more_ids_stop) (simp add: ascii_def isspace_low literal_def)

lemma id_string_solid:
  assumes "ns \<noteq> []"
  shows "strip (id_string ns) = id_string ns"
    and "strip (id_string ns @ ascii '' #'' @ q) = id_string ns @ ascii '' #'' @ rstrip q"
proof -
  note e = id_string_edges [OF assms]
  show "strip (id_string ns) = id_string ns"
    using e by (intro strip_id) (auto dest: isspace_not_decimal)
  have "strip ((id_string ns @ ascii '' #'') @ q) = (id_string ns @ ascii '' #'') @ rstrip q"
    using e
    by (intro strip_append_solid) (auto simp: ascii_def isspace_low dest: isspace_not_decimal)
  then show "strip (id_string ns @ ascii '' #'' @ q) = id_string ns @ ascii '' #'' @ rstrip q"
    by simp
qed

lemma id_match_render:
  assumes "ns \<noteq> []"
  shows "id_match (render g ns) = Some (id_string ns)"
proof (cases "query_item g (map int ns) = []")
  case True
  have "id_match (id_string ns @ []) = Some (id_string ns)"
    using assms by (intro id_match_rendered) (simp_all add: no_digit_head_def more_ids_Nil)
  with True assms show ?thesis
    by (simp add: render_def id_string_solid)
next
  case False
  have "id_match (id_string ns @ (ascii '' #'' @ rstrip (query_item g (map int ns))))
      = Some (id_string ns)"
    using assms
    by (intro id_match_rendered more_ids_hash)
      (simp_all add: no_digit_head_def ascii_def isdecimal_low)
  with False assms show ?thesis
    by (simp add: render_def id_string_solid)
qed

lemma strip_render: "strip (render g ns) = render g ns"
  by (simp add: render_def strip_idem)

lemma annotate_line_render:
  assumes "ns \<noteq> []"
    and "list_all (\<lambda>n. length (digits_of n) \<le> int_max_str_digits) ns"
  shows "annotate_line g (render g ns) = render g ns"
proof -
  have "id_match (strip (render g ns)) = Some (id_string ns)"
    using assms(1) by (simp add: strip_render id_match_render)
  moreover have "list_all (\<lambda>d. length d \<le> int_max_str_digits) (findall_digits (id_string ns))"
    using assms(2) by (simp add: findall_digits_rendered list_all_iff)
  ultimately have "annotate_line g (render g ns)
      = render g (map digits_value (findall_digits (id_string ns)))"
    by (rule annotate_line_match)
  then show ?thesis
    by (simp add: findall_digits_rendered digits_value_digits_of comp_def)
qed

text \<open>
  Annotating an output line gives it back, whatever the line and the dictionaries: a
  line echoed because \<^verbatim>\<open>int\<close> refused a number of it is refused again, and a number
  that \<^verbatim>\<open>int\<close> has read is written with no more digits than it was read from.
\<close>

lemma annotate_line_idem: "annotate_line g (annotate_line g line) = annotate_line g line"
proof (cases "strip line = []")
  case True
  then show ?thesis
    by (simp add: annotate_line_blank strip_Nil)
next
  case False
  show ?thesis
  proof (cases "id_match (strip line)")
    case None
    then have "annotate_line g line = strip line"
      by (rule annotate_line_no_match)
    moreover have "annotate_line g (strip line) = strip (strip line)"
      using None by (intro annotate_line_no_match) (simp add: strip_idem)
    ultimately show ?thesis
      by (simp add: strip_idem)
  next
    case (Some m)
    let ?ds = "findall_digits m"
    show ?thesis
    proof (cases "list_all (\<lambda>d. length d \<le> int_max_str_digits) ?ds")
      case True
      have "length (digits_of (digits_value d)) \<le> int_max_str_digits" if "d \<in> set ?ds" for d
      proof -
        have "length (digits_of (digits_value d)) \<le> length d"
          using findall_digits_digits [OF that] by (intro digits_of_digits_value_length) simp_all
        moreover have "length d \<le> int_max_str_digits"
          using True that by (simp add: list_all_iff)
        ultimately show ?thesis
          by simp
      qed
      then have "list_all (\<lambda>n. length (digits_of n) \<le> int_max_str_digits) (map digits_value ?ds)"
        by (simp add: list_all_iff)
      moreover have "map digits_value ?ds \<noteq> []"
        using Some by (simp add: id_match_findall)
      ultimately show ?thesis
        using annotate_line_match [OF Some True] by (simp add: annotate_line_render)
    next
      case False
      have "annotate_line g line = strip line"
        using Some False by (rule annotate_line_long)
      moreover have "annotate_line g (strip line) = strip (strip line)"
        using Some False by (intro annotate_line_long [of _ m]) (simp_all add: strip_idem)
      ultimately show ?thesis
        by (simp add: strip_idem)
    qed
  qed
qed

section \<open>Lines of a text\<close>

lemma split_str_single: "no_newline x \<Longrightarrow> split_str [0x0A] x = [x]"
  by (induction x) (auto simp: no_newline_def)

lemma split_str_line: "no_newline a \<Longrightarrow> split_str [0x0A] (a @ 0x0A # b) = a # split_str [0x0A] b"
  by (induction a) (auto simp: no_newline_def)

lemma split_str_join:
  "ys \<noteq> [] \<Longrightarrow> list_all no_newline ys \<Longrightarrow> split_str [0x0A] (join [0x0A] ys) = ys"
proof (induction "[0x0A :: nat]" ys rule: join.induct)
  case 1
  then show ?case by simp
next
  case (2 x)
  then show ?case by (simp add: split_str_single)
next
  case (3 x y ys)
  then show ?case by (simp add: split_str_line)
qed

lemma split_str_nonempty: "split_str sep s \<noteq> []"
  by (induction sep s rule: split_str.induct) (auto split: list.splits)

lemma split_str_parts: "p \<in> set (split_str sep s) \<Longrightarrow> set p \<subseteq> set s"
proof (induction sep s arbitrary: p rule: split_str.induct)
  case (1 sep)
  then show ?case by simp
next
  case (2 sep c cs)
  show ?case
  proof (cases "sep \<noteq> [] \<and> prefix sep (c # cs)")
    case True
    with "2.prems" have "p = [] \<or> p \<in> set (split_str sep (drop (length sep - 1) cs))"
      by auto
    then show ?thesis
    proof
      assume "p = []"
      then show ?thesis by simp
    next
      assume "p \<in> set (split_str sep (drop (length sep - 1) cs))"
      with True have "set p \<subseteq> set (drop (length sep - 1) cs)"
        by (intro "2.IH"(1)) auto
      then show ?thesis
        using set_drop_subset by fastforce
    qed
  next
    case False
    obtain w ws where w: "split_str sep cs = w # ws"
      using split_str_nonempty by (cases "split_str sep cs") auto
    with False "2.prems" have "p = c # w \<or> p \<in> set ws"
      by auto
    moreover have "set w \<subseteq> set cs" "\<And>q. q \<in> set ws \<Longrightarrow> set q \<subseteq> set cs"
      using False w "2.IH"(2) by auto
    ultimately show ?thesis by auto
  qed
qed

lemma split_str_lines: "l \<in> set (split_str [0x0A] x) \<Longrightarrow> no_newline l"
proof (induction x arbitrary: l)
  case Nil
  then show ?case by (simp add: no_newline_def)
next
  case (Cons c cs)
  obtain w ws where w: "split_str [0x0A] cs = w # ws"
    using split_str_nonempty by (cases "split_str [0x0A] cs") auto
  then have "no_newline w" "\<And>q. q \<in> set ws \<Longrightarrow> no_newline q"
    using Cons.IH by auto
  with Cons.prems w show ?case
    by (auto simp: no_newline_def split: if_splits)
qed

lemma no_newline_join:
  "no_newline sep \<Longrightarrow> list_all no_newline xs \<Longrightarrow> no_newline (join sep xs)"
  by (induction sep xs rule: join.induct) (auto simp: no_newline_def)

lemma no_newline_strip: "no_newline s \<Longrightarrow> no_newline (strip s)"
  using set_strip by (auto simp: no_newline_def)

lemma no_newline_rstrip: "no_newline s \<Longrightarrow> no_newline (rstrip s)"
  unfolding no_newline_def rstrip_def using set_dropWhileD by fastforce

lemma no_newline_subset: "set a \<subseteq> set b \<Longrightarrow> no_newline b \<Longrightarrow> no_newline a"
  by (auto simp: no_newline_def)

lemma no_newline_digits_of: "no_newline (digits_of n)"
  using digits_of_ascii [of "0x0A" n] by (auto simp: no_newline_def)

lemma no_newline_py_str: "no_newline (py_str i)"
  using no_newline_digits_of by (simp add: py_str_def no_newline_def)

section \<open>The lines of a file hold one-line names\<close>

lemma iter_lines_clean:
  "no_newline cur \<Longrightarrow> l \<in> set (iter_lines cur s) \<Longrightarrow> no_newline (strip l)"
proof (induction s arbitrary: cur)
  case Nil
  then show ?case by (auto simp: no_newline_strip split: if_splits)
next
  case (Cons c cs)
  show ?case
  proof (cases "c = 0x0A")
    case True
    with Cons.prems have "l = cur @ [0x0A] \<or> l \<in> set (iter_lines [] cs)"
      by auto
    then show ?thesis
    proof
      assume "l = cur @ [0x0A]"
      then have "strip l = strip cur"
        by (simp add: strip_append_spaces isspace_low)
      with Cons.prems(1) show ?thesis by (simp add: no_newline_strip)
    next
      assume "l \<in> set (iter_lines [] cs)"
      then show ?thesis
        by (intro Cons.IH [of "[]"]) (simp_all add: no_newline_def)
    qed
  next
    case False
    with Cons.prems show ?thesis
      by (intro Cons.IH [of "cur @ [c]"]) (simp_all add: no_newline_def)
  qed
qed

lemma file_lines_clean: "l \<in> set (file_lines content) \<Longrightarrow> no_newline (strip l)"
  unfolding file_lines_def by (rule iter_lines_clean [of "[]"]) (simp_all add: no_newline_def)

lemma update_all:
  "P v \<Longrightarrow> list_all (\<lambda>kv. P (snd kv)) d \<Longrightarrow> list_all (\<lambda>kv. P (snd kv)) (AList.update k v d)"
  by (induction d) auto

lemma dict_update_all:
  "list_all (\<lambda>kv. P (snd kv)) t \<Longrightarrow> list_all (\<lambda>kv. P (snd kv)) d
     \<Longrightarrow> list_all (\<lambda>kv. P (snd kv)) (dict_update d t)"
  unfolding dict_update_def
  by (induction t arbitrary: d) (simp_all add: update_all)

lemma store_item_clean:
  assumes "no_newline nm" "list_all (\<lambda>kv. no_newline (name (snd kv))) (parsed_items t)"
  shows "list_all (\<lambda>kv. no_newline (name (snd kv))) (parsed_items (store_item id1 id2 nm t))"
  using assms
  by (auto simp: store_item_def Let_def intro!: update_all [where P = "\<lambda>i. no_newline (name i)"])

lemma generic_line_clean:
  assumes "no_newline (strip raw)"
    and "list_all (\<lambda>kv. no_newline (name (snd kv))) (parsed_items (fst acc))"
  shows "list_all (\<lambda>kv. no_newline (name (snd kv))) (parsed_items (fst (generic_line raw acc)))"
proof -
  let ?parts = "map strip (split_str (ascii '' -- '') (strip raw))"
  have "no_newline (?parts ! 2)" if "4 \<le> length ?parts"
  proof -
    from that have "?parts ! 2 \<in> set ?parts"
      by (intro nth_mem) simp
    then obtain q where "q \<in> set (split_str (ascii '' -- '') (strip raw))" "?parts ! 2 = strip q"
      by auto
    then have "set (?parts ! 2) \<subseteq> set (strip raw)"
      using split_str_parts set_strip by fastforce
    then show ?thesis using assms(1) by (rule no_newline_subset)
  qed
  with assms(2) show ?thesis
    by (auto simp: generic_line_def Let_def store_item_clean split: option.splits)
qed

lemma fold_generic_line_clean:
  assumes "\<And>l. l \<in> set ls \<Longrightarrow> no_newline (strip l)"
    and "list_all (\<lambda>kv. no_newline (name (snd kv))) (parsed_items (fst acc))"
  shows "list_all (\<lambda>kv. no_newline (name (snd kv)))
           (parsed_items (fst (fold generic_line ls acc)))"
  using assms by (induction ls arbitrary: acc) (simp_all add: generic_line_clean)

lemma parse_generic_clean:
  assumes "parse_generic_code_table fs p e = Inr (t, lg)"
  shows "list_all (\<lambda>kv. no_newline (name (snd kv))) (parsed_items t)"
proof -
  obtain content raised where f: "fs p e = (content, raised)" by (cases "fs p e")
  have "list_all (\<lambda>kv. no_newline (name (snd kv)))
      (parsed_items (fst (fold generic_line (file_lines content) (no_tables, []))))"
    by (intro fold_generic_line_clean file_lines_clean) (simp_all add: no_tables_def)
  moreover have "t = fst (fold generic_line (file_lines content) (no_tables, []))"
    using assms f
    by (auto simp: parse_generic_code_table_def Let_def split: option.splits exn.splits)
  ultimately show ?thesis by simp
qed

lemma literal_set: "literal l s = Some r \<Longrightarrow> set r \<subseteq> set s"
  by (auto simp: literal_def split: if_splits dest: in_set_dropD)

lemma many1_set: "many1 p s = Some (d, r) \<Longrightarrow> set d \<subseteq> set s \<and> set r \<subseteq> set s"
  by (auto simp: many1_def split: if_splits dest: set_takeWhileD set_dropWhileD)

lemma subway_pattern_match_clean:
  assumes "subway_pattern_match s = Some (g1, g2, g3)" "no_newline s"
  shows "no_newline g2 \<and> no_newline g3"
proof -
  from assms(1) obtain r1 d1 r2 r3 d r4 r5 r6 r7 h r8 where
    m: "literal (ascii ''{'') s = Some r1" "many1 isdecimal r1 = Some (d1, r2)"
       "literal (ascii ''}--{'') r2 = Some r3" "many1 isdecimal r3 = Some (d, r4)"
       "literal (ascii ''}--['') r4 = Some r5" "many1 not_rbracket r5 = Some (g2, r6)"
       "literal (ascii '']--[0x'') r6 = Some r7" "many1 ishex r7 = Some (h, r8)"
    and g3: "g3 = ascii ''0x'' @ h"
    unfolding subway_pattern_match_def
    by (auto simp: bind_eq_Some_conv)
  have "set r5 \<subseteq> set s"
    using m(1-5) by (meson literal_set many1_set subset_trans)
  moreover have "set g2 \<subseteq> set r5" "set r6 \<subseteq> set r5"
    using m(6) many1_set by blast+
  moreover have "set h \<subseteq> set r6"
    using m(7,8) by (meson literal_set many1_set subset_trans)
  ultimately have "set g2 \<subseteq> set s" "set h \<subseteq> set s"
    by auto
  with assms(2) g3 show ?thesis
    by (auto simp: no_newline_def ascii_def)
qed

lemma subway_line_clean:
  assumes "no_newline (strip raw)"
    and "list_all (\<lambda>kv. no_newline (subway_name (snd kv)) \<and> no_newline (hex_code (snd kv)))
          (fst acc)"
  shows "list_all (\<lambda>kv. no_newline (subway_name (snd kv)) \<and> no_newline (hex_code (snd kv)))
          (fst (subway_line raw acc))"
  using assms subway_pattern_match_clean [of "strip raw"]
  by (auto simp: subway_line_def Let_def split: option.splits
      intro!: update_all [where P = "\<lambda>i. no_newline (subway_name i) \<and> no_newline (hex_code i)"])

lemma fold_subway_line_clean:
  assumes "\<And>l. l \<in> set ls \<Longrightarrow> no_newline (strip l)"
    and "list_all (\<lambda>kv. no_newline (subway_name (snd kv)) \<and> no_newline (hex_code (snd kv)))
          (fst acc)"
  shows "list_all (\<lambda>kv. no_newline (subway_name (snd kv)) \<and> no_newline (hex_code (snd kv)))
          (fst (fold subway_line ls acc))"
  using assms by (induction ls arbitrary: acc) (simp_all add: subway_line_clean)

lemma parse_subway_clean:
  assumes "parse_subway_code_table_file fs p e = Inr (t, lg)"
  shows "list_all (\<lambda>kv. no_newline (subway_name (snd kv)) \<and> no_newline (hex_code (snd kv))) t"
proof -
  obtain content raised where f: "fs p e = (content, raised)" by (cases "fs p e")
  have "list_all (\<lambda>kv. no_newline (subway_name (snd kv)) \<and> no_newline (hex_code (snd kv)))
      (fst (fold subway_line (file_lines content) ([], [])))"
    by (intro fold_subway_line_clean file_lines_clean) simp_all
  moreover have "t = fst (fold subway_line (file_lines content) ([], []))"
    using assms f
    by (auto simp: parse_subway_code_table_file_def Let_def split: option.splits exn.splits)
  ultimately show ?thesis by simp
qed

lemma load_code_table_clean:
  assumes "load_code_table fs = Inr (g, lg)"
  shows "clean_names g"
proof -
  obtain t l where t: "parse_generic_code_table fs code_table_path UTF8 = Inr (t, l)"
    using parse_generic_returns [of fs code_table_path UTF8] by auto
  obtain t' l' where t': "parse_subway_code_table_file fs subway_code_table_path UTF8 = Inr (t', l')"
    using parse_subway_returns [of fs subway_code_table_path UTF8] by auto
  have g: "g = update_subway t' (update_generic t no_globals)"
    using assms load_code_table_utf8 [OF t t'] by simp
  have "list_all (\<lambda>kv. no_newline (name (snd kv))) (dict_update [] (parsed_items t))"
    using parse_generic_clean [OF t] by (intro dict_update_all) simp_all
  moreover have
    "list_all (\<lambda>kv. no_newline (subway_name (snd kv)) \<and> no_newline (hex_code (snd kv)))
      (dict_update [] t')"
    using parse_subway_clean [OF t'] by (intro dict_update_all) simp_all
  ultimately show ?thesis
    by (simp add: g clean_names_def update_subway_def update_generic_def no_globals_def)
qed

lemma resolve_clean:
  assumes "clean_names g"
  shows "no_newline (resolve g n)"
proof (cases "map_of (item_dict g) n")
  case (Some i)
  then have "(n, i) \<in> set (item_dict g)" by (rule map_of_SomeD)
  with assms have "no_newline (name i)"
    by (auto simp: clean_names_def list_all_iff)
  with Some show ?thesis by (simp add: resolve_def)
next
  case None
  show ?thesis
  proof (cases "map_of (subway_item_dict g) n")
    case (Some s)
    then have "(n, s) \<in> set (subway_item_dict g)" by (rule map_of_SomeD)
    with assms have "no_newline (subway_name s)" "no_newline (hex_code s)"
      by (auto simp: clean_names_def list_all_iff)
    with None Some show ?thesis
      by (simp add: resolve_def no_newline_def ascii_def ditie_def)
  next
    case n: None
    with None no_newline_py_str [of n] show ?thesis
      by (simp add: resolve_def no_newline_def ascii_def weizhaodao_def)
  qed
qed

lemma query_item_clean: "clean_names g \<Longrightarrow> no_newline (query_item g ns)"
  unfolding query_item_def
  by (intro no_newline_join) (simp_all add: no_newline_def ascii_def list_all_iff resolve_clean [unfolded no_newline_def])

lemma id_string_clean: "no_newline (id_string ns)"
  unfolding id_string_def
  by (intro no_newline_join) (simp_all add: no_newline_def ascii_def list_all_iff no_newline_py_str [unfolded no_newline_def])

lemma render_clean: "clean_names g \<Longrightarrow> no_newline (render g ns)"
  unfolding render_def
  using id_string_clean [of ns] query_item_clean [of g "map int ns"]
  by (intro no_newline_strip) (simp add: no_newline_def ascii_def)

lemma annotate_line_clean:
  assumes "clean_names g" "no_newline line"
  shows "no_newline (annotate_line g line)"
proof (cases "id_match (strip line)")
  case None
  with assms(2) show ?thesis
    by (simp add: annotate_line_no_match no_newline_strip)
next
  case (Some m)
  show ?thesis
  proof (cases "list_all (\<lambda>d. length d \<le> int_max_str_digits) (findall_digits m)")
    case True
    with Some assms(1) show ?thesis
      by (simp add: annotate_line_match render_clean)
  next
    case False
    with Some assms(2) show ?thesis
      by (simp add: annotate_line_long no_newline_strip)
  qed
qed

section \<open>Annotating a line with trailing text\<close>

lemma strip_dropWhile: "dropWhile isspace (strip s) = strip s"
  by (cases "strip s = []") (simp_all add: dropWhile_hd_id strip_edges)

lemma run_solid:
  assumes "id_match s = Some m"
  shows "strip m = m"
  using id_match_props(1-3) [OF assms]
  by (intro strip_id) (auto dest: isspace_not_decimal)

lemma render_explicit:
  assumes "ns \<noteq> []"
  shows "render g ns
           = (if query_item g (map int ns) = [] then id_string ns
              else id_string ns @ ascii '' #'' @ rstrip (query_item g (map int ns)))"
  using assms by (simp add: render_def id_string_solid)

lemma annotate_line_long_digits:
  assumes "list_all isdecimal ds" and "int_max_str_digits < length ds"
    and "no_digit_head r" and "more_ids r = []" and "strip (ds @ r) = ds @ r"
  shows "annotate_line g (ds @ r) = ds @ r"
proof -
  have ne: "ds \<noteq> []"
    using assms(2) by auto
  have "id_match (ds @ r) = Some (ds @ more_ids r)"
    using ne assms(1,3) by (rule id_match_run)
  then have m: "id_match (strip (ds @ r)) = Some ds"
    by (simp add: assms(4,5))
  have "findall_digits (ds @ []) = ds # findall_digits []"
    using ne assms(1) by (intro findall_digits_run) (simp_all add: no_digit_head_def)
  then have "findall_digits ds = [ds]"
    by (simp add: findall_digits_Nil)
  then have "\<not> list_all (\<lambda>d. length d \<le> int_max_str_digits) (findall_digits ds)"
    using assms(2) by simp
  with m have "annotate_line g (ds @ r) = strip (ds @ r)"
    by (rule annotate_line_long)
  then show ?thesis
    by (simp add: assms(5))
qed

lemma nines_long:
  "list_all isdecimal (replicate 4301 0x39)"
  "int_max_str_digits < length (replicate 4301 (0x39 :: nat))"
  by (simp_all add: list_all_iff isdecimal_low int_max_str_digits_def)

lemma index_single_line:
  assumes "item_dict g \<noteq> [] \<or> subway_item_dict g \<noteq> []" and "no_newline line"
  shows "final_text (index g POST line) = annotate_line g line"
  using assms by (auto simp: index_def split_str_single)

text \<open>
  Claim C6, as stated: the text after the leading run is never echoed. It is, when a
  number of the run has more than 4300 digits: \<^verbatim>\<open>int\<close> raises \<^verbatim>\<open>ValueError\<close> for it,
  and the handler then gives the stripped line back. The line of 4301 nines followed
  by \<^verbatim>\<open>" note"\<close> comes back as it is, for the tables of the scenario.
\<close>

theorem trailing_text_long_number_counterexample:
  "id_match (strip (replicate 4301 0x39 @ ascii '' note'')) = Some (replicate 4301 0x39)
   \<and> py_int (replicate 4301 0x39) = None
   \<and> annotate_line globals4 (replicate 4301 0x39 @ ascii '' note'')
       = replicate 4301 0x39 @ ascii '' note''
   \<and> final_text (index globals4 POST (replicate 4301 0x39 @ ascii '' note''))
       = replicate 4301 0x39 @ ascii '' note''"
proof -
  let ?ds = "replicate 4301 (0x39 :: nat)"
  have r: "no_digit_head (ascii '' note'')" "more_ids (ascii '' note'') = []"
    by (simp_all add: no_digit_head_def more_ids.simps str_eval char_eval)
  have s: "strip (?ds @ ascii '' note'') = ?ds @ ascii '' note''"
    by (rule strip_id) (simp_all add: ascii_def isspace_low)
  have "id_match (?ds @ ascii '' note'') = Some (?ds @ more_ids (ascii '' note''))"
    using nines_long(1) r(1) by (intro id_match_run) simp_all
  then have m: "id_match (strip (?ds @ ascii '' note'')) = Some ?ds"
    by (simp add: s r(2))
  have p: "py_int ?ds = None"
    using nines_long by (rule py_int_long)
  have a: "annotate_line globals4 (?ds @ ascii '' note'') = ?ds @ ascii '' note''"
    using nines_long r s by (rule annotate_line_long_digits)
  have "no_newline (?ds @ ascii '' note'')"
    by (simp add: no_newline_def ascii_def)
  then have "final_text (index globals4 POST (?ds @ ascii '' note''))
      = annotate_line globals4 (?ds @ ascii '' note'')"
    by (intro index_single_line) (simp add: globals4_def)
  with m p a show ?thesis
    by simp
qed

text \<open>
  Claim C6, amended: when the stripped line starts with a run of IDs of which none has
  more than 4300 digits, \<^verbatim>\<open>int\<close> reads the numbers of the run and the output line is
  made from them alone: their decimal forms joined by \<^verbatim>\<open>", "\<close>, then \<^verbatim>\<open>" #"\<close> and the
  names unless these are empty. Whatever follows the run on the line is not in the
  output, which is the output for the run on a line of its own.
\<close>

theorem annotate_line_discards_trailing_text:
  assumes "id_match (strip line) = Some run"
    and "list_all (\<lambda>d. length d \<le> int_max_str_digits) (findall_digits run)"
  shows "\<exists>numbers. those (map py_int (findall_digits run)) = Some numbers
           \<and> (\<exists>rest. strip line = run @ rest)
           \<and> annotate_line g line
               = (if query_item g numbers = [] then join (ascii '', '') (map py_str numbers)
                  else join (ascii '', '') (map py_str numbers) @ ascii '' #''
                         @ rstrip (query_item g numbers))
           \<and> annotate_line g line = annotate_line g run"
proof -
  let ?ns = "map digits_value (findall_digits run)"
  have n: "those (map py_int (findall_digits run)) = Some (map int ?ns)"
    using assms(2) by (simp add: run_numbers comp_def)
  have i: "join (ascii '', '') (map py_str (map int ?ns)) = id_string ?ns"
    unfolding id_string_def by (simp add: comp_def)
  have "\<exists>u. dropWhile isspace (strip line) = run @ u"
    using assms(1) by (rule id_match_props(5))
  then have 1: "\<exists>rest. strip line = run @ rest"
    by (simp add: strip_dropWhile)
  have ne: "?ns \<noteq> []"
    using id_match_findall [OF assms(1)] by simp
  have a: "annotate_line g line = render g ?ns"
    using assms by (rule annotate_line_match)
  have "id_match (strip run) = Some run"
    using assms(1) by (simp add: run_solid id_match_props(4))
  then have "annotate_line g run = render g ?ns"
    using assms(2) by (rule annotate_line_match)
  with 1 a ne have
    "(\<exists>rest. strip line = run @ rest)
     \<and> annotate_line g line
         = (if query_item g (map int ?ns) = [] then join (ascii '', '') (map py_str (map int ?ns))
            else join (ascii '', '') (map py_str (map int ?ns)) @ ascii '' #''
                   @ rstrip (query_item g (map int ?ns)))
     \<and> annotate_line g line = annotate_line g run"
    unfolding i by (simp add: render_explicit)
  with n show ?thesis
    by blast
qed

theorem annotate_line_discards_trailing_text_witness:
  "id_match (strip (ascii ''  12 ,  34   some note'')) = Some (ascii ''12 ,  34'')
   \<and> list_all (\<lambda>d. length d \<le> int_max_str_digits) (findall_digits (ascii ''12 ,  34''))
   \<and> those (map py_int (findall_digits (ascii ''12 ,  34''))) = Some [12, 34]
   \<and> query_item globals4 [12, 34]
       = weizhaodao @ ascii ''ID 12, '' @ weizhaodao @ ascii ''ID 34''
   \<and> join (ascii '', '') (map py_str [12, 34]) = ascii ''12, 34''
   \<and> annotate_line globals4 (ascii ''  12 ,  34   some note'')
       = ascii ''12, 34 #'' @ weizhaodao @ ascii ''ID 12, '' @ weizhaodao @ ascii ''ID 34''
   \<and> annotate_line globals4 (ascii ''12 ,  34'')
       = ascii ''12, 34 #'' @ weizhaodao @ ascii ''ID 12, '' @ weizhaodao @ ascii ''ID 34''"
proof -
  have m: "id_match (strip (ascii ''  12 ,  34   some note'')) = Some (ascii ''12 ,  34'')"
    by (simp add: id_match_def more_ids.simps str_eval char_eval)
  have n: "those (map py_int (findall_digits (ascii ''12 ,  34''))) = Some [12, 34]"
    by (simp add: findall_digits.simps str_eval char_eval)
  have l: "list_all (\<lambda>d. length d \<le> int_max_str_digits) (findall_digits (ascii ''12 ,  34''))"
    by (simp add: findall_digits.simps str_eval char_eval)
  have q: "query_item globals4 [12, 34]
      = weizhaodao @ ascii ''ID 12, '' @ weizhaodao @ ascii ''ID 34''"
    by (simp add: query_item_def resolve_def globals4_def subway_501_def py_str_def
        digits_of.simps ascii_def)
  have i: "join (ascii '', '') (map py_str [12, 34]) = ascii ''12, 34''"
    by (simp add: py_str_def digits_of.simps ascii_def)
  have r: "rstrip (weizhaodao @ ascii ''ID 12, '' @ weizhaodao @ ascii ''ID 34'')
      = weizhaodao @ ascii ''ID 12, '' @ weizhaodao @ ascii ''ID 34''"
    by (simp add: rstrip_def ascii_def weizhaodao_def char_eval)
  have e: "weizhaodao @ ascii ''ID 12, '' @ weizhaodao @ ascii ''ID 34'' \<noteq> []"
    by (simp add: weizhaodao_def)
  from annotate_line_discards_trailing_text [OF m l, of globals4]
  obtain numbers where t:
    "those (map py_int (findall_digits (ascii ''12 ,  34''))) = Some numbers"
    "annotate_line globals4 (ascii ''  12 ,  34   some note'')
      = (if query_item globals4 numbers = [] then join (ascii '', '') (map py_str numbers)
         else join (ascii '', '') (map py_str numbers) @ ascii '' #''
                @ rstrip (query_item globals4 numbers))"
    "annotate_line globals4 (ascii ''  12 ,  34   some note'')
      = annotate_line globals4 (ascii ''12 ,  34'')"
    by blast
  have k: "numbers = [12, 34]"
    using t(1) unfolding n by simp
  have 1: "annotate_line globals4 (ascii ''  12 ,  34   some note'')
      = ascii ''12, 34'' @ ascii '' #''
        @ weizhaodao @ ascii ''ID 12, '' @ weizhaodao @ ascii ''ID 34''"
    using t(2) unfolding k q i by (simp only: e r if_False)
  have 2: "annotate_line globals4 (ascii ''12 ,  34'')
      = annotate_line globals4 (ascii ''  12 ,  34   some note'')"
    using t(3) by (rule sym)
  show ?thesis
    unfolding 2 1 using m l n q i by (simp add: ascii_def)
qed

section \<open>Digits glued to text\<close>

lemma more_ids_other: "\<not> isspace c \<Longrightarrow> c \<noteq> 0x2C \<Longrightarrow> more_ids (c # x) = []"
  by (rule more_ids_stop) (simp add: literal_comma_Cons)

lemma query_item_single: "query_item g [n] = resolve g n"
  by (simp add: query_item_def)

lemma id_string_single: "id_string [k] = py_str (int k)"
  by (simp add: id_string_def)

text \<open>
  Claim C10, as stated: a line of digits glued to other text gives the line
  \<^verbatim>\<open><number> #<resolved>\<close> and is not passed through. For an item with an empty name
  the program leaves out the \<^verbatim>\<open>" #"\<close> as well: with the table line \<^verbatim>\<open>1 -- 2 --  -- x\<close>
  loaded, the line \<^verbatim>\<open>2abc\<close> gives \<^verbatim>\<open>2\<close>. And more than 4300 digits are passed through
  with the glued text, \<^verbatim>\<open>int\<close> raising \<^verbatim>\<open>ValueError\<close> for them: the line of 4301 nines
  followed by \<^verbatim>\<open>abc\<close> comes back as it is.
\<close>

theorem glued_suffix_counterexample:
  "load_code_table (utf8_files nameless_generic []) = Inr (nameless_globals, [])
   \<and> annotate_line nameless_globals (ascii ''2abc'') = ascii ''2''
   \<and> annotate_line nameless_globals (ascii ''2abc'')
       \<noteq> ascii ''2 #'' @ resolve nameless_globals 2
   \<and> py_int (replicate 4301 0x39) = None
   \<and> annotate_line nameless_globals (replicate 4301 0x39 @ ascii ''abc'')
       = replicate 4301 0x39 @ ascii ''abc''
   \<and> final_text (index nameless_globals POST (replicate 4301 0x39 @ ascii ''abc''))
       = replicate 4301 0x39 @ ascii ''abc''"
proof -
  let ?ds = "replicate 4301 (0x39 :: nat)"
  have 1: "annotate_line nameless_globals (ascii ''2abc'') = ascii ''2''"
    "annotate_line nameless_globals (ascii ''2abc'') \<noteq> ascii ''2 #'' @ resolve nameless_globals 2"
    by (simp_all add: index_eval nameless_globals_def str_eval char_eval)
  have r: "no_digit_head (ascii ''abc'')" "more_ids (ascii ''abc'') = []"
    by (simp_all add: no_digit_head_def more_ids.simps str_eval char_eval)
  have s: "strip (?ds @ ascii ''abc'') = ?ds @ ascii ''abc''"
    by (rule strip_id) (simp_all add: ascii_def isspace_low)
  have p: "py_int ?ds = None"
    using nines_long by (rule py_int_long)
  have a: "annotate_line nameless_globals (?ds @ ascii ''abc'') = ?ds @ ascii ''abc''"
    using nines_long r s by (rule annotate_line_long_digits)
  have "no_newline (?ds @ ascii ''abc'')"
    by (simp add: no_newline_def ascii_def)
  then have "final_text (index nameless_globals POST (?ds @ ascii ''abc''))
      = annotate_line nameless_globals (?ds @ ascii ''abc'')"
    by (intro index_single_line) (simp add: nameless_globals_def)
  with 1 p a show ?thesis
    by (simp add: load_nameless)
qed

text \<open>
  Claim C10, amended: a line that starts with at most 4300 digits followed at once by a
  character that is no digit, no white space and no comma is not passed through. The
  digits are the run: \<^verbatim>\<open>int\<close> reads a number \<open>n\<close> from them, and the output is \<open>n\<close> in
  decimal followed by \<^verbatim>\<open>" #"\<close> and the resolved text, or \<open>n\<close> alone when the resolved
  text is empty; the glued text is dropped, the output being that of the digits on a
  line of their own.
\<close>

theorem annotate_line_glued_suffix:
  assumes "ds \<noteq> []" and "list_all isdecimal ds" and "length ds \<le> int_max_str_digits"
    and "\<not> isdecimal c" and "\<not> isspace c" and "c \<noteq> 0x2C"
  shows "\<exists>n. py_int ds = Some n
           \<and> annotate_line g (ds @ c # rest)
               = (if resolve g n = [] then py_str n
                  else py_str n @ ascii '' #'' @ rstrip (resolve g n))
           \<and> annotate_line g (ds @ c # rest) = annotate_line g ds
           \<and> annotate_line g (ds @ c # rest) \<noteq> strip (ds @ c # rest)"
proof -
  let ?k = "digits_value ds"
  let ?n = "int ?k"
  have 1: "py_int ds = Some ?n"
    using assms(1-3) by (rule py_int_all)
  let ?out = "if resolve g ?n = [] then py_str ?n
    else py_str ?n @ ascii '' #'' @ rstrip (resolve g ?n)"
  have h: "isdecimal (hd ds)" "isdecimal (last ds)"
    using assms(1,2) by (auto simp: list_all_iff)
  have s: "strip (ds @ c # rest) = ds @ c # rstrip rest"
    using strip_append_solid [of "ds @ [c]" rest] assms(1,5) h(1)
    by (cases ds) (auto dest: isspace_not_decimal)
  have "id_match (ds @ c # rstrip rest) = Some (ds @ more_ids (c # rstrip rest))"
    using assms(1,2,4) by (intro id_match_run) (simp_all add: no_digit_head_def)
  then have m: "id_match (strip (ds @ c # rest)) = Some ds"
    using assms(5,6) by (simp add: s more_ids_other)
  have "findall_digits (ds @ []) = ds # findall_digits []"
    using assms(1,2) by (intro findall_digits_run) (simp_all add: no_digit_head_def)
  then have f: "findall_digits ds = [ds]"
    by (simp add: findall_digits_Nil)
  have l: "list_all (\<lambda>d. length d \<le> int_max_str_digits) (findall_digits ds)"
    using assms(3) by (simp add: f)
  have r: "render g [?k] = ?out"
    by (simp add: render_explicit query_item_single id_string_single)
  have 2: "annotate_line g (ds @ c # rest) = ?out"
    using annotate_line_match [OF m l] by (simp add: f r)
  have "strip ds = ds"
    using assms(1) h by (intro strip_id) (auto dest: isspace_not_decimal)
  moreover have "id_match (ds @ []) = Some (ds @ more_ids [])"
    using assms(1,2) by (intro id_match_run) (simp_all add: no_digit_head_def)
  ultimately have "id_match (strip ds) = Some ds"
    by (simp add: more_ids_Nil)
  then have 3: "annotate_line g ds = ?out"
    using annotate_line_match [of ds ds g] l by (simp add: f r)
  have 4: "?out \<noteq> ds @ c # rstrip rest"
  proof
    assume eq: "?out = ds @ c # rstrip rest"
    have d: "list_all isdecimal (py_str ?n)" "py_str ?n = digits_of ?k"
      by (simp_all add: py_str_nat digits_of_decimal)
    have "dropWhile isdecimal (ds @ c # rstrip rest) = c # rstrip rest"
      using assms(2,4) by (simp add: dropWhile_all_append)
    moreover have "dropWhile isdecimal ?out = [] \<or> hd (dropWhile isdecimal ?out) = 0x20"
      using d(1) dropWhile_all_append [of isdecimal "py_str ?n" "[]"]
        dropWhile_all_append [of isdecimal "py_str ?n" "ascii '' #'' @ rstrip (resolve g ?n)"]
      by (auto simp: ascii_def isdecimal_low)
    ultimately have "c = 0x20"
      using eq by auto
    with assms(5) show False
      by (simp add: isspace_low)
  qed
  have "annotate_line g (ds @ c # rest) = ?out
      \<and> annotate_line g (ds @ c # rest) = annotate_line g ds
      \<and> annotate_line g (ds @ c # rest) \<noteq> strip (ds @ c # rest)"
    using 2 3 4 s by simp
  with 1 show ?thesis
    by blast
qed

theorem annotate_line_glued_suffix_witness:
  "ascii ''123'' \<noteq> [] \<and> list_all isdecimal (ascii ''123'')
   \<and> length (ascii ''123'') \<le> int_max_str_digits
   \<and> \<not> isdecimal 0x61 \<and> \<not> isspace 0x61 \<and> (0x61 :: nat) \<noteq> 0x2C
   \<and> py_int (ascii ''123'') = Some 123
   \<and> annotate_line globals4 (ascii ''123abc'') = ascii ''123 #'' @ weizhaodao @ ascii ''ID 123''
   \<and> annotate_line globals4 (ascii ''123'') = ascii ''123 #'' @ weizhaodao @ ascii ''ID 123''
   \<and> strip (ascii ''123abc'') = ascii ''123abc''"
proof -
  have 1: "ascii ''123'' \<noteq> []" "list_all isdecimal (ascii ''123'')"
    "length (ascii ''123'') \<le> int_max_str_digits"
    by (simp_all add: ascii_def char_eval int_max_str_digits_def)
  have 2: "\<not> isdecimal 0x61" "\<not> isspace 0x61" "(0x61 :: nat) \<noteq> 0x2C"
    by (simp_all add: char_eval)
  have 3: "py_int (ascii ''123'') = Some 123"
    by (simp add: str_eval char_eval)
  have r: "resolve globals4 123 = weizhaodao @ ascii ''ID 123''"
    by (simp add: resolve_def globals4_def subway_501_def py_str_def digits_of.simps ascii_def)
  have t: "rstrip (weizhaodao @ ascii ''ID 123'') = weizhaodao @ ascii ''ID 123''"
    "weizhaodao @ ascii ''ID 123'' \<noteq> []" "py_str 123 = ascii ''123''"
    "strip (ascii ''123abc'') = ascii ''123abc''"
    by (simp_all add: str_eval weizhaodao_def char_eval)
  from annotate_line_glued_suffix [OF 1 2, of globals4 "ascii ''bc''"]
  obtain n where n: "py_int (ascii ''123'') = Some n"
    "annotate_line globals4 (ascii ''123'' @ 0x61 # ascii ''bc'')
      = (if resolve globals4 n = [] then py_str n
         else py_str n @ ascii '' #'' @ rstrip (resolve globals4 n))"
    "annotate_line globals4 (ascii ''123'' @ 0x61 # ascii ''bc'') = annotate_line globals4 (ascii ''123'')"
    by blast
  have k: "n = 123"
    using n(1) unfolding 3 by simp
  have a: "annotate_line globals4 (ascii ''123'' @ 0x61 # ascii ''bc'')
      = ascii ''123'' @ ascii '' #'' @ weizhaodao @ ascii ''ID 123''"
    using n(2) unfolding k r t(1) t(3) by (simp only: t(2) if_False)
  have b: "ascii ''123'' @ 0x61 # ascii ''bc'' = ascii ''123abc''"
    by (simp add: ascii_def)
  show ?thesis
    using 1 2 3 a n(3) t(4) unfolding b by (simp add: ascii_def)
qed

section \<open>Annotating a text\<close>

lemma index_post:
  assumes "item_dict g \<noteq> [] \<or> subway_item_dict g \<noteq> []"
  shows "final_text (index g POST user_input)
           = join [0x0A] (map (annotate_line g) (split_str [0x0A] user_input))"
  using assms by (auto simp: index_def)

lemma index_lines:
  assumes "clean_names g" and "item_dict g \<noteq> [] \<or> subway_item_dict g \<noteq> []"
  shows "split_str [0x0A] (final_text (index g POST user_input))
           = map (annotate_line g) (split_str [0x0A] user_input)"
proof -
  have "list_all no_newline (map (annotate_line g) (split_str [0x0A] user_input))"
    using assms(1) by (auto simp: list_all_iff intro: annotate_line_clean split_str_lines)
  then show ?thesis
    using assms(2) by (simp add: index_post split_str_join split_str_nonempty)
qed

text \<open>
  Claim C7: with the tables loaded and not both empty, the output text has one line
  for each line of the input text, the annotation of that line: the two texts have the
  same number of lines, a line that is blank after stripping gives an empty line, and a
  line whose stripped form does not start with a digit gives its stripped form.
\<close>

theorem index_line_by_line:
  assumes "load_code_table fs = Inr (g, lg)"
    and "item_dict g \<noteq> [] \<or> subway_item_dict g \<noteq> []"
    and "ins = split_str [0x0A] user_input"
    and "outs = split_str [0x0A] (final_text (index g POST user_input))"
  shows "length outs = length ins
         \<and> outs = map (annotate_line g) ins
         \<and> (\<forall>i < length ins.
               (strip (ins ! i) = [] \<longrightarrow> outs ! i = [])
               \<and> (strip (ins ! i) \<noteq> [] \<and> \<not> isdecimal (hd (strip (ins ! i)))
                    \<longrightarrow> outs ! i = strip (ins ! i)))"
proof -
  have c: "clean_names g"
    using assms(1) by (rule load_code_table_clean)
  have o: "outs = map (annotate_line g) ins"
    unfolding assms(3,4) using c assms(2) by (rule index_lines)
  have "annotate_line g l = strip l" if "strip l \<noteq> []" "\<not> isdecimal (hd (strip l))" for l
    using that by (intro annotate_line_no_match id_match_None) (simp_all add: strip_edges)
  with o show ?thesis
    by (simp add: annotate_line_blank)
qed

theorem index_line_by_line_witness:
  "load_code_table (utf8_files scenario_generic4 scenario_subway) = Inr (globals4, [])
   \<and> item_dict globals4 \<noteq> []
   \<and> split_str [0x0A] (ascii ''101'' @ [0x0A, 0x20, 0x0A] @ ascii '' hello world '')
       = [ascii ''101'', [0x20], ascii '' hello world '']
   \<and> split_str [0x0A] (final_text (index globals4 POST
         (ascii ''101'' @ [0x0A, 0x20, 0x0A] @ ascii '' hello world '')))
       = [ascii ''101 #AK47'' @ buqiang, [], ascii ''hello world'']"
proof -
  let ?input = "ascii ''101'' @ [0x0A, 0x20, 0x0A] @ ascii '' hello world ''"
  have n: "item_dict globals4 \<noteq> [] \<or> subway_item_dict globals4 \<noteq> []"
    by (simp add: globals4_def)
  have i: "split_str [0x0A] ?input = [ascii ''101'', [0x20], ascii '' hello world '']"
    by (simp add: ascii_def)
  have a: "annotate_line globals4 (ascii ''101'') = ascii ''101 #AK47'' @ buqiang"
    by (simp add: index_eval globals4_def subway_501_def str_eval char_eval word_eval)
  have s: "strip [0x20] = []" "strip (ascii '' hello world '') = ascii ''hello world''"
    "\<not> isdecimal (hd (ascii ''hello world''))" "ascii ''hello world'' \<noteq> []"
    by (simp_all add: str_eval char_eval)
  from index_line_by_line [OF load_scenario4 n refl refl, of ?input]
  have "split_str [0x0A] (final_text (index globals4 POST ?input))
      = map (annotate_line globals4) (split_str [0x0A] ?input)"
    and "\<forall>i < length (split_str [0x0A] ?input).
      (strip (split_str [0x0A] ?input ! i) = [] \<longrightarrow>
         split_str [0x0A] (final_text (index globals4 POST ?input)) ! i = [])
      \<and> (strip (split_str [0x0A] ?input ! i) \<noteq> []
           \<and> \<not> isdecimal (hd (strip (split_str [0x0A] ?input ! i))) \<longrightarrow>
         split_str [0x0A] (final_text (index globals4 POST ?input)) ! i
           = strip (split_str [0x0A] ?input ! i))"
    by blast+
  then have o: "split_str [0x0A] (final_text (index globals4 POST ?input))
      = [annotate_line globals4 (ascii ''101''), annotate_line globals4 [0x20],
         annotate_line globals4 (ascii '' hello world '')]"
    and f: "\<forall>i < 3.
      (strip ([ascii ''101'', [0x20], ascii '' hello world ''] ! i) = [] \<longrightarrow>
         [annotate_line globals4 (ascii ''101''), annotate_line globals4 [0x20],
          annotate_line globals4 (ascii '' hello world '')] ! i = [])
      \<and> (strip ([ascii ''101'', [0x20], ascii '' hello world ''] ! i) \<noteq> []
           \<and> \<not> isdecimal (hd (strip ([ascii ''101'', [0x20], ascii '' hello world ''] ! i))) \<longrightarrow>
         [annotate_line globals4 (ascii ''101''), annotate_line globals4 [0x20],
          annotate_line globals4 (ascii '' hello world '')] ! i
           = strip ([ascii ''101'', [0x20], ascii '' hello world ''] ! i))"
    unfolding i by simp_all
  have b: "annotate_line globals4 [0x20] = []"
    "annotate_line globals4 (ascii '' hello world '') = ascii ''hello world''"
    using f [rule_format, of 1] f [rule_format, of 2] s by simp_all
  show ?thesis
    using load_scenario4 i o a b by (simp add: globals4_def)
qed

text \<open>
  Claim C5: for a text of one line, annotating the annotated text changes nothing. The
  annotation keeps the IDs at the start of the line and replaces what follows them,
  so the second pass reads the same IDs and writes the same line. The side condition
  of the claim, that the leading run is unchanged by one pass, is not needed.
\<close>

theorem annotate_twice:
  assumes "load_code_table fs = Inr (g, lg)" and "0x0A \<notin> set x"
  shows "final_text (index g POST (final_text (index g POST x))) = final_text (index g POST x)"
proof (cases "item_dict g = [] \<and> subway_item_dict g = []")
  case True
  then show ?thesis by (simp add: index_def)
next
  case False
  then have n: "item_dict g \<noteq> [] \<or> subway_item_dict g \<noteq> []"
    by simp
  have c: "clean_names g"
    using assms(1) by (rule load_code_table_clean)
  have x: "no_newline x"
    using assms(2) by (simp add: no_newline_def)
  then have 1: "final_text (index g POST x) = annotate_line g x"
    using n by (simp add: index_post split_str_single)
  have "no_newline (annotate_line g x)"
    using c x by (rule annotate_line_clean)
  then have "final_text (index g POST (annotate_line g x)) = annotate_line g (annotate_line g x)"
    using n by (simp add: index_post split_str_single)
  with 1 show ?thesis
    by (simp add: annotate_line_idem)
qed

theorem annotate_twice_witness:
  "load_code_table (utf8_files scenario_generic4 scenario_subway) = Inr (globals4, [])
   \<and> 0x0A \<notin> set (ascii ''201 ,101 spare'')
   \<and> final_text (index globals4 POST (ascii ''201 ,101 spare''))
       = ascii ''201, 101 #AK47'' @ danxia @ ascii '', AK47'' @ buqiang
   \<and> final_text (index globals4 POST (ascii ''201, 101 #AK47'' @ danxia @ ascii '', AK47'' @ buqiang))
       = ascii ''201, 101 #AK47'' @ danxia @ ascii '', AK47'' @ buqiang"
proof -
  have n: "0x0A \<notin> set (ascii ''201 ,101 spare'')"
    by (simp add: ascii_def)
  have a: "final_text (index globals4 POST (ascii ''201 ,101 spare''))
      = ascii ''201, 101 #AK47'' @ danxia @ ascii '', AK47'' @ buqiang"
    by (simp add: index_eval globals4_def subway_501_def str_eval char_eval word_eval)
  show ?thesis
    using annotate_twice [OF load_scenario4 n] load_scenario4 n a by simp
qed

section \<open>The string functions are the familiar ones\<close>

text \<open>
  \<open>contains\<close> is the contiguous-sublist relation of the library, and joining the pieces
  of a split with the separator gives the text back.
\<close>

lemma contains_sublist: "contains k s \<longleftrightarrow> sublist k s"
  by (induction s) (simp_all add: sublist_Cons_right)

lemma join_Cons: "join sep (x # xs) = (if xs = [] then x else x @ sep @ join sep xs)"
  by (cases xs) simp_all

lemma join_split_str: "join sep (split_str sep s) = s"
proof (induction sep s rule: split_str.induct)
  case (1 sep)
  show ?case by simp
next
  case (2 sep c cs)
  show ?case
  proof (cases "sep \<noteq> [] \<and> prefix sep (c # cs)")
    case True
    then obtain r where r: "c # cs = sep @ r"
      by (auto simp: prefix_def)
    with True have "drop (length sep - 1) cs = r"
      by (cases sep) auto
    with True "2.IH"(1) have j: "join sep (split_str sep (drop (length sep - 1) cs)) = r"
      by simp
    have 1: "split_str sep (c # cs) = [] # split_str sep (drop (length sep - 1) cs)"
      using True by simp
    have 2: "join sep ([] # split_str sep (drop (length sep - 1) cs))
        = sep @ join sep (split_str sep (drop (length sep - 1) cs))"
      by (simp add: join_Cons split_str_nonempty)
    show ?thesis
      unfolding 1 2 j by (rule r [symmetric])
  next
    case False
    obtain w ws where w: "split_str sep cs = w # ws"
      using split_str_nonempty by (cases "split_str sep cs") auto
    with False "2.IH"(2) have j: "join sep (w # ws) = cs"
      by simp
    have 1: "split_str sep (c # cs) = (c # w) # ws"
      using False w by auto
    have 2: "join sep ((c # w) # ws) = c # join sep (w # ws)"
      by (simp add: join_Cons)
    show ?thesis
      unfolding 1 2 j by (rule refl)
  qed
qed

text \<open>
  The subway pattern, read as a description of the line: a match with the groups \<open>g1\<close>,
  \<open>g2\<close> and \<open>g3\<close> is a line that starts with the four bracketed fields, where \<open>g1\<close> and
  the second field are digits, \<open>g2\<close> is a non-empty text without \<^verbatim>\<open>]\<close>, and \<open>g3\<close> is
  \<^verbatim>\<open>0x\<close> and hex digits.
\<close>

lemma literal_conv: "literal l s = Some r \<longleftrightarrow> s = l @ r"
  by (auto simp: literal_def prefix_def)

lemma many1_conv:
  "many1 p s = Some (d, r) \<longleftrightarrow>
     s = d @ r \<and> d \<noteq> [] \<and> list_all p d \<and> (case r of [] \<Rightarrow> True | c # _ \<Rightarrow> \<not> p c)"
proof
  assume "many1 p s = Some (d, r)"
  then have d: "d = takeWhile p s" "r = dropWhile p s" "d \<noteq> []"
    by (auto simp: many1_def split: if_splits)
  have "case dropWhile p s of [] \<Rightarrow> True | c # _ \<Rightarrow> \<not> p c"
    by (induction s) simp_all
  with d show "s = d @ r \<and> d \<noteq> [] \<and> list_all p d \<and> (case r of [] \<Rightarrow> True | c # _ \<Rightarrow> \<not> p c)"
    by (auto simp: list_all_iff dest: set_takeWhileD)
next
  assume a: "s = d @ r \<and> d \<noteq> [] \<and> list_all p d \<and> (case r of [] \<Rightarrow> True | c # _ \<Rightarrow> \<not> p c)"
  then have "takeWhile p r = []" "dropWhile p r = r"
    by (cases r; simp)+
  with a show "many1 p s = Some (d, r)"
    by (simp add: many1_def takeWhile_all_append dropWhile_all_append)
qed

lemma subway_pattern_match_conv:
  "subway_pattern_match s = Some (g1, g2, g3) \<longleftrightarrow>
     (\<exists>d h rest.
        s = ascii ''{'' @ g1 @ ascii ''}--{'' @ d @ ascii ''}--['' @ g2 @ ascii '']--[0x'' @ h
              @ ascii '']'' @ rest
        \<and> g1 \<noteq> [] \<and> list_all isdecimal g1 \<and> d \<noteq> [] \<and> list_all isdecimal d
        \<and> g2 \<noteq> [] \<and> list_all not_rbracket g2 \<and> h \<noteq> [] \<and> list_all ishex h
        \<and> g3 = ascii ''0x'' @ h)"
proof
  assume "subway_pattern_match s = Some (g1, g2, g3)"
  then obtain r1 r2 r3 d r4 r5 r6 r7 h r8 r9 where
    m: "literal (ascii ''{'') s = Some r1" "many1 isdecimal r1 = Some (g1, r2)"
       "literal (ascii ''}--{'') r2 = Some r3" "many1 isdecimal r3 = Some (d, r4)"
       "literal (ascii ''}--['') r4 = Some r5" "many1 not_rbracket r5 = Some (g2, r6)"
       "literal (ascii '']--[0x'') r6 = Some r7" "many1 ishex r7 = Some (h, r8)"
       "literal (ascii '']'') r8 = Some r9"
    and g3: "g3 = ascii ''0x'' @ h"
    unfolding subway_pattern_match_def
    by (auto simp: bind_eq_Some_conv)
  from m have "s = ascii ''{'' @ g1 @ ascii ''}--{'' @ d @ ascii ''}--['' @ g2 @ ascii '']--[0x'' @ h
      @ ascii '']'' @ r9"
    by (simp add: literal_conv many1_conv)
  moreover from m have "g1 \<noteq> [] \<and> list_all isdecimal g1 \<and> d \<noteq> [] \<and> list_all isdecimal d
      \<and> g2 \<noteq> [] \<and> list_all not_rbracket g2 \<and> h \<noteq> [] \<and> list_all ishex h"
    by (simp add: many1_conv)
  ultimately show "\<exists>d h rest.
        s = ascii ''{'' @ g1 @ ascii ''}--{'' @ d @ ascii ''}--['' @ g2 @ ascii '']--[0x'' @ h
              @ ascii '']'' @ rest
        \<and> g1 \<noteq> [] \<and> list_all isdecimal g1 \<and> d \<noteq> [] \<and> list_all isdecimal d
        \<and> g2 \<noteq> [] \<and> list_all not_rbracket g2 \<and> h \<noteq> [] \<and> list_all ishex h
        \<and> g3 = ascii ''0x'' @ h"
    using g3 by blast
next
  assume "\<exists>d h rest.
        s = ascii ''{'' @ g1 @ ascii ''}--{'' @ d @ ascii ''}--['' @ g2 @ ascii '']--[0x'' @ h
              @ ascii '']'' @ rest
        \<and> g1 \<noteq> [] \<and> list_all isdecimal g1 \<and> d \<noteq> [] \<and> list_all isdecimal d
        \<and> g2 \<noteq> [] \<and> list_all not_rbracket g2 \<and> h \<noteq> [] \<and> list_all ishex h
        \<and> g3 = ascii ''0x'' @ h"
  then obtain d h rest where
    s: "s = ascii ''{'' @ (g1 @ (ascii ''}--{'' @ (d @ (ascii ''}--['' @ (g2 @ (ascii '']--[0x''
          @ (h @ (ascii '']'' @ rest))))))))"
    and p: "g1 \<noteq> []" "list_all isdecimal g1" "d \<noteq> []" "list_all isdecimal d"
      "g2 \<noteq> []" "list_all not_rbracket g2" "h \<noteq> []" "list_all ishex h"
    and g3: "g3 = ascii ''0x'' @ h"
    by auto
  have 1: "many1 isdecimal (g1 @ (ascii ''}--{'' @ x)) = Some (g1, ascii ''}--{'' @ x)" for x
    using p(1,2) by (simp add: many1_conv ascii_def isdecimal_low)
  have 2: "many1 isdecimal (d @ (ascii ''}--['' @ x)) = Some (d, ascii ''}--['' @ x)" for x
    using p(3,4) by (simp add: many1_conv ascii_def isdecimal_low)
  have 3: "many1 not_rbracket (g2 @ (ascii '']--[0x'' @ x)) = Some (g2, ascii '']--[0x'' @ x)" for x
    using p(5,6) by (simp add: many1_conv ascii_def not_rbracket_def)
  have 4: "many1 ishex (h @ (ascii '']'' @ x)) = Some (h, ascii '']'' @ x)" for x
    using p(7,8) by (simp add: many1_conv ascii_def ishex_def)
  have l: "literal a (a @ x) = Some x" for a x
    by (simp add: literal_conv)
  show "subway_pattern_match s = Some (g1, g2, g3)"
    unfolding subway_pattern_match_def s by (simp add: l 1 2 3 4 g3)
qed

end
